theory Spec2Isabelle
  imports Complex_Main "HOL-Library.Char_ord" "HOL-Library.List_Lexorder" "HOL-Library.Multiset"
begin

section \<open>Interactive LLM chat: a model of \<open>interactive_llm_chat.py\<close>\<close>

text \<open>
  The program is orchestration around two opaque vendor objects (\<open>VDevice\<close>, \<open>LLM\<close>),
  the file system and the terminal. The model makes each of them explicit:
  \<^item> Python \<open>str\<close> is \<open>string\<close>, a character being its code point. A \<open>char\<close> has eight
    bits, so the strings of the model are the Python strings whose code points are below
    256 (ASCII and Latin-1); on these \<open>lower\<close>, \<open>strip\<close> and \<open>int\<close> are modelled in full.
  \<^item> everything the program prints, logs or calls on the vendor objects is an \<open>event\<close>
    appended to a trace, in program order;
  \<^item> a raised exception is a value: \<open>Inl\<close> of a sum type.
\<close>

subsection \<open>Strings\<close>

text \<open>
  \<open>str.lower()\<close> on one character below 256: the letters \<open>A..Z\<close> and the Latin-1 capitals
  \<open>U+00C0..U+00DE\<close>, the multiplication sign \<open>U+00D7\<close> apart, move up by 32.
\<close>

definition lower_char :: "char \<Rightarrow> char" where
  "lower_char c =
     (let n = (of_char c :: nat) in
      if (65 \<le> n \<and> n \<le> 90) \<or> (192 \<le> n \<and> n \<le> 222 \<and> n \<noteq> 215)
      then char_of (n + 32) else c)"

text \<open>\<open>str.lower()\<close>.\<close>

definition lower :: "string \<Rightarrow> string" where
  "lower s = map lower_char s"

text \<open>
  \<open>str.isspace\<close> on one character below 256: tab, line feed, vertical tab, form feed,
  carriage return, the separators \<open>0x1C..0x1F\<close>, the space, next line \<open>U+0085\<close> and the
  no-break space \<open>U+00A0\<close>.
\<close>

definition is_space :: "char \<Rightarrow> bool" where
  "is_space c =
     (let n = (of_char c :: nat) in
      (9 \<le> n \<and> n \<le> 13) \<or> (28 \<le> n \<and> n \<le> 32) \<or> n = 133 \<or> n = 160)"

text \<open>\<open>str.strip()\<close> with no argument.\<close>

definition strip :: "string \<Rightarrow> string" where
  "strip s = rev (dropWhile is_space (rev (dropWhile is_space s)))"

text \<open>\<open>s.startswith(p)\<close>.\<close>

fun startswith :: "string \<Rightarrow> string \<Rightarrow> bool" where
  "startswith s [] = True"
| "startswith [] (p # ps) = False"
| "startswith (c # cs) (p # ps) = (c = p \<and> startswith cs ps)"

text \<open>\<open>s.endswith(p)\<close>.\<close>

definition endswith :: "string \<Rightarrow> string \<Rightarrow> bool" where
  "endswith s p = startswith (rev s) (rev p)"

text \<open>\<open>pattern in s\<close>: \<open>pattern\<close> occurs in \<open>s\<close> as a contiguous substring.\<close>

fun contains :: "string \<Rightarrow> string \<Rightarrow> bool" where
  "contains [] pattern = (pattern = [])"
| "contains (c # cs) pattern = (startswith (c # cs) pattern \<or> contains cs pattern)"

text \<open>
  \<open>s.split(sep)[0]\<close> for a non-empty separator: the text before the first occurrence of
  \<open>sep\<close>, the whole of \<open>s\<close> when \<open>sep\<close> does not occur.
\<close>

fun split_first :: "string \<Rightarrow> string \<Rightarrow> string" where
  "split_first [] sep = []"
| "split_first (c # cs) sep = (if startswith (c # cs) sep then [] else c # split_first cs sep)"

subsection \<open>Paths\<close>

text \<open>
  A POSIX \<open>pathlib.Path\<close>: the directory part (the root and the components before the
  last, each with its closing slash) and the final component, \<open>Path.name\<close>.
\<close>

record path =
  parent :: string
  name :: string

text \<open>\<open>s.split(sep)\<close> for a separator of one character.\<close>

definition split_on :: "char \<Rightarrow> string \<Rightarrow> string list" where
  "split_on sep s =
     foldr (\<lambda>c acc. if c = sep then [] # acc else (c # hd acc) # tl acc) s [[]]"

text \<open>
  \<open>Path(s)\<close>, with the normalisation of \<open>pathlib\<close>: the root is \<open>/\<close>, or \<open>//\<close> for
  exactly two leading slashes; empty components (doubled and trailing slashes) and \<open>.\<close>
  components are dropped; \<open>..\<close> is kept.
\<close>

definition path_root :: "string \<Rightarrow> string" where
  "path_root s =
     (if startswith s ''//'' \<and> \<not> startswith s ''///'' then ''//''
      else if startswith s ''/'' then ''/'' else [])"

definition path_parts :: "string \<Rightarrow> string list" where
  "path_parts s = filter (\<lambda>c. c \<noteq> [] \<and> c \<noteq> ''.'') (split_on CHR ''/'' s)"

definition Path :: "string \<Rightarrow> path" where
  "Path s =
     (let parts = path_parts s in
      \<lparr>parent = path_root s @ concat (map (\<lambda>c. c @ ''/'') (butlast parts)),
       name = (if parts = [] then [] else last parts)\<rparr>)"

text \<open>\<open>str(p)\<close>: the path with no root and no component is \<open>.\<close>.\<close>

definition str :: "path \<Rightarrow> string" where
  "str p = (if parent p = [] \<and> name p = [] then ''.'' else parent p @ name p)"

text \<open>\<open>str.rfind('.')\<close>: the index of the last dot, \<open>None\<close> for Python's \<open>-1\<close>.\<close>

definition rfind_dot :: "string \<Rightarrow> nat option" where
  "rfind_dot s =
     (if CHR ''.'' \<in> set s
      then Some (length s - 1 - length (takeWhile (\<lambda>c. c \<noteq> CHR ''.'') (rev s)))
      else None)"

text \<open>
  \<open>Path.stem\<close>: the final component without its last suffix; a name whose only dot is
  the first or the last character has no suffix.
\<close>

definition stem :: "path \<Rightarrow> string" where
  "stem p =
     (case rfind_dot (name p) of
        None \<Rightarrow> name p
      | Some i \<Rightarrow> if 0 < i \<and> i < length (name p) - 1 then take i (name p) else name p)"

subsection \<open>Model locator\<close>

text \<open>
  Modelled from the spec: the constant \<open>HAILO_FILE_EXTENSION\<close> is imported from
  \<open>hailo_apps.python.core.common.defines\<close>, which is not among the sources. The spec calls
  it the model file extension, and the comments of the program (``Filter for .hef files'',
  ``Try adding .hef extension'') give its value.
\<close>

definition HAILO_FILE_EXTENSION :: string where
  "HAILO_FILE_EXTENSION = ''.hef''"

definition llm_patterns :: "string list" where
  "llm_patterns =
     [''qwen'', ''llama'', ''mistral'', ''gemma'', ''phi'', ''instruct'', ''chat'', ''coder'']"

text \<open>
  \<open>models_dir.glob("*" + HAILO_FILE_EXTENSION)\<close>: the entries directly under the
  directory whose name ends with the extension, in the order the directory yields them.
  The directory is given by the names of its entries.
\<close>

definition glob_ext :: "string \<Rightarrow> string list \<Rightarrow> path list" where
  "glob_ext models_dir entries =
     map (\<lambda>n. \<lparr>parent = models_dir @ ''/'', name = n\<rparr>)
       (filter (\<lambda>n. endswith n HAILO_FILE_EXTENSION) entries)"

text \<open>
  \<open>get_downloaded_llm_models\<close>. The second argument is the state of the models
  directory: \<open>None\<close> when \<open>models_dir.exists()\<close> is false, the names of its entries
  otherwise. \<open>sorted(..., key=...)\<close> is a stable sort on the key, as \<open>sort_key\<close> is.
\<close>

definition get_downloaded_llm_models :: "string \<Rightarrow> string list option \<Rightarrow> path list" where
  "get_downloaded_llm_models models_dir listing =
     (case listing of
        None \<Rightarrow> []
      | Some entries \<Rightarrow>
          sort_key (\<lambda>p. lower (stem p))
            (filter (\<lambda>hef_file. list_ex (\<lambda>pattern. contains (lower (stem hef_file)) pattern) llm_patterns)
               (glob_ext models_dir entries)))"

subsection \<open>Exceptions, terminal and vendor runtime\<close>

text \<open>
  The exceptions the program tells apart: \<open>KeyboardInterrupt\<close> (not an \<open>Exception\<close>),
  \<open>ValueError\<close> (it and its subclasses, which \<open>except ValueError\<close> catches alike),
  \<open>EOFError\<close> (what \<open>input()\<close> raises at the end of standard input), and any other
  \<open>Exception\<close>, given by its message. An asynchronous
  \<open>KeyboardInterrupt\<close> is modelled at the calls where the program blocks, \<open>input()\<close> and
  \<open>generate_all\<close>; the other vendor calls fail with an \<open>Exception\<close> only, given by its
  message.
\<close>

datatype exn = KeyboardInterrupt | ValueError string | EOFError | Exception string

datatype role = System | User | Assistant

text \<open>
  One turn of the transcript, \<open>{"role": r, "content": [{"type": "text", "text": t}]}\<close>:
  the content is always a single text part, given here by its text.
\<close>

record turn =
  role :: role
  content :: string

datatype message =
    Menu "string list"
  | Exiting
  | RangeHint nat
  | NumberHint
  | ChatBanner
  | Goodbye
  | ContextCleared
  | SystemPromptUpdated string
  | UsageHint
  | AssistantPrefix
  | Response string
  | BlankLine
  | Interrupted
  | ErrorReport exn
  | NoModelsFound
  | UsingOnly string
  | SelectedModel string
  | InitDevice
  | DeviceInitialized
  | LoadingModel
  | ModelLoaded

datatype log_message =
    GeneratingResponse exn
  | ModelNotFound string
  | ErrorOccurred exn
  | ReleasingLLM string
  | ReleasingVDevice string

datatype call =
    NewVDevice
  | NewLLM string
  | GenerateAll "turn list" rat nat
  | ClearContext
  | ReleaseLLM
  | ReleaseVDevice

text \<open>
  What the program does to the outside, in order: \<open>print\<close>, \<open>input(prompt)\<close>,
  \<open>logger.error\<close>, \<open>logger.warning\<close>, and the calls on the vendor objects.
\<close>

datatype prompt = SelectModelNumber | You

datatype event =
    Print message
  | Input prompt
  | LogError log_message
  | LogWarning log_message
  | Call call

text \<open>
  The vendor runtime, opaque to the program: \<open>'v\<close> is the state of a device handle,
  \<open>'l\<close> the state of a model handle. \<open>VDevice\<close> stands for \<open>VDevice.create_params()\<close>,
  the assignment of the group id and \<open>VDevice(params)\<close>; \<open>LLM\<close> for \<open>LLM(vdevice, path)\<close>.
  A call on the model handle returns its result together with the handle's new state.
\<close>

record ('v, 'l) runtime =
  VDevice :: "string + 'v"
  LLM :: "'v \<Rightarrow> string \<Rightarrow> string + 'l"
  generate_all :: "'l \<Rightarrow> turn list \<Rightarrow> rat \<Rightarrow> nat \<Rightarrow> (exn + string) \<times> 'l"
  clear_context :: "'l \<Rightarrow> (string + unit) \<times> 'l"
  release_llm :: "'l \<Rightarrow> string + unit"
  release_vdevice :: "'v \<Rightarrow> string + unit"

text \<open>
  Standard input: what each successive call of \<open>input()\<close> gives, a line or an exception.
  When the list is used up the program is blocked in \<open>input()\<close>.
\<close>

type_synonym stdin = "(exn + string) list"

subsection \<open>Model selector\<close>

definition digit_val :: "char \<Rightarrow> nat option" where
  "digit_val c =
     (let n = (of_char c :: nat) in if 48 \<le> n \<and> n \<le> 57 then Some (n - 48) else None)"

text \<open>The digits after the first one: single underscores may separate digits.\<close>

fun digits_acc :: "nat \<Rightarrow> string \<Rightarrow> nat option" where
  "digits_acc acc [] = Some acc"
| "digits_acc acc (c # cs) =
     (if c = CHR ''_'' then
        (case cs of
           [] \<Rightarrow> None
         | d # ds \<Rightarrow>
             (case digit_val d of None \<Rightarrow> None | Some v \<Rightarrow> digits_acc (10 * acc + v) ds))
      else
        (case digit_val c of None \<Rightarrow> None | Some v \<Rightarrow> digits_acc (10 * acc + v) cs))"

text \<open>
  The interpreter's limit on the digits of a decimal string that \<open>int\<close> converts,
  \<open>sys.int_info.default_max_str_digits\<close>.
\<close>

definition max_str_digits :: nat where
  "max_str_digits = 4300"

text \<open>
  The digits of \<open>int(s)\<close> after the sign: at least one digit, and more than
  \<open>max_str_digits\<close> digits (underscores not counted) are refused.
\<close>

definition py_digits :: "string \<Rightarrow> nat option" where
  "py_digits s =
     (if max_str_digits < length (filter (\<lambda>c. c \<noteq> CHR ''_'') s) then None
      else
        (case s of
           [] \<Rightarrow> None
         | c # cs \<Rightarrow> (case digit_val c of None \<Rightarrow> None | Some v \<Rightarrow> digits_acc v cs)))"

text \<open>
  \<open>int(s)\<close> on a string of characters below 256: surrounding white space, an optional
  sign, decimal digits. \<open>None\<close> is the \<open>ValueError\<close>.
\<close>

definition py_int :: "string \<Rightarrow> int option" where
  "py_int s =
     (case strip s of
        [] \<Rightarrow> None
      | c # cs \<Rightarrow>
          if c = CHR ''-'' then map_option (\<lambda>n. - int n) (py_digits cs)
          else if c = CHR ''+'' then map_option int (py_digits cs)
          else map_option int (py_digits (c # cs)))"

datatype select_result =
    Selected path stdin
  | SysExit int
  | Raised exn
  | AwaitingChoice

definition after :: "event list \<Rightarrow> event list \<times> 'a \<Rightarrow> event list \<times> 'a" where
  "after es r = (es @ fst r, snd r)"

text \<open>
  The \<open>while True\<close> of \<open>select_model\<close>. An accepted choice returns the model together with
  the input that is left; \<open>sys.exit(0)\<close> is \<open>SysExit 0\<close>; an exception of \<open>input()\<close> other
  than \<open>ValueError\<close> leaves the function.
\<close>

fun select_loop :: "path list \<Rightarrow> stdin \<Rightarrow> event list \<times> select_result" where
  "select_loop models [] = ([Input SelectModelNumber], AwaitingChoice)"
| "select_loop models (Inl e # rest) =
     (case e of
        ValueError m \<Rightarrow> after [Input SelectModelNumber, Print NumberHint] (select_loop models rest)
      | _ \<Rightarrow> ([Input SelectModelNumber], Raised e))"
| "select_loop models (Inr line # rest) =
     (let choice = strip line in
      if lower choice = ''q'' then ([Input SelectModelNumber, Print Exiting], SysExit 0)
      else
        (case py_int choice of
           None \<Rightarrow> after [Input SelectModelNumber, Print NumberHint] (select_loop models rest)
         | Some n \<Rightarrow>
             (let idx = n - 1 in
              if 0 \<le> idx \<and> idx < int (length models)
              then ([Input SelectModelNumber], Selected (models ! nat idx) rest)
              else after [Input SelectModelNumber, Print (RangeHint (length models))]
                     (select_loop models rest))))"

definition select_model :: "path list \<Rightarrow> stdin \<Rightarrow> event list \<times> select_result" where
  "select_model models inputs = after [Print (Menu (map stem models))] (select_loop models inputs)"

subsection \<open>Chat loop\<close>

text \<open>The local state of \<open>interactive_chat\<close>, the model handle, and the trace so far.\<close>

record 'l chat =
  conversation :: "turn list"
  system_prompt :: string
  llm :: 'l
  trace :: "event list"

datatype 'a loop_ctl = Continue 'a | Break 'a

datatype 'a chat_result = Terminated 'a | AwaitingInput 'a

definition system_turn :: "string \<Rightarrow> turn" where
  "system_turn p = \<lparr>role = System, content = p\<rparr>"

definition user_turn :: "string \<Rightarrow> turn" where
  "user_turn t = \<lparr>role = User, content = t\<rparr>"

definition assistant_turn :: "string \<Rightarrow> turn" where
  "assistant_turn t = \<lparr>role = Assistant, content = t\<rparr>"

definition emit :: "event list \<Rightarrow> 'l chat \<Rightarrow> 'l chat" where
  "emit es st = st\<lparr>trace := trace st @ es\<rparr>"

text \<open>The trailing-metadata marker of line 137: \<open>. [{'type'\<close>.\<close>

definition metadata_marker :: string where
  "metadata_marker = [CHR ''.'', CHR '' '', CHR ''['', CHR ''{'', CHR 0x27,
                      CHR ''t'', CHR ''y'', CHR ''p'', CHR ''e'', CHR 0x27]"

text \<open>
  The two handlers of the loop: \<open>except KeyboardInterrupt\<close> leaves the loop,
  \<open>except Exception\<close> logs, reports and goes on.
\<close>

definition on_exception :: "exn \<Rightarrow> 'l chat \<Rightarrow> 'l chat loop_ctl" where
  "on_exception e st =
     (case e of
        KeyboardInterrupt \<Rightarrow> Break (emit [Print Interrupted] st)
      | _ \<Rightarrow> Continue (emit [LogError (GeneratingResponse e), Print (ErrorReport e)] st))"

text \<open>Lines 121 to 146: the turn of a user utterance.\<close>

definition utterance :: "('v, 'l) runtime \<Rightarrow> 'l chat \<Rightarrow> string \<Rightarrow> 'l chat loop_ctl" where
  "utterance R st user_input =
     (let st1 = emit [Print AssistantPrefix,
                      Call (GenerateAll (conversation st @ [user_turn user_input]) (7 / 10) 500)]
                  (st\<lparr>conversation := conversation st @ [user_turn user_input]\<rparr>)
      in
        (case generate_all R (llm st1) (conversation st1) (7 / 10) 500 of
           (Inl e, l') \<Rightarrow> on_exception e (st1\<lparr>llm := l'\<rparr>)
         | (Inr response, l') \<Rightarrow>
             (let clean_response = split_first response metadata_marker in
              Continue
                (emit [Print (Response clean_response), Print BlankLine]
                   (st1\<lparr>llm := l',
                        conversation := conversation st1 @ [assistant_turn clean_response]\<rparr>)))))"

text \<open>
  One iteration of the \<open>while True\<close> of \<open>interactive_chat\<close>, on what \<open>input("You: ")\<close>
  gives. The assignments to \<open>system_prompt\<close> and \<open>conversation\<close> are in the order of the
  source: on \<open>/system\<close> the prompt is replaced before \<open>clear_context\<close> is called, the
  transcript after it has returned.
\<close>

definition chat_step :: "('v, 'l) runtime \<Rightarrow> 'l chat \<Rightarrow> exn + string \<Rightarrow> 'l chat loop_ctl" where
  "chat_step R st0 inp =
     (let st = emit [Input You] st0 in
      case inp of
        Inl e \<Rightarrow> on_exception e st
      | Inr line \<Rightarrow>
          (let user_input = strip line in
           if user_input = [] then Continue st
           else if lower user_input \<in> set [''/quit'', ''/exit''] then Break (emit [Print Goodbye] st)
           else if lower user_input = ''/clear'' then
             (case clear_context R (llm st) of
                (Inl m, l') \<Rightarrow>
                  on_exception (Exception m) (emit [Call ClearContext] (st\<lparr>llm := l'\<rparr>))
              | (Inr u, l') \<Rightarrow>
                  Continue
                    (emit [Call ClearContext, Print ContextCleared]
                       (st\<lparr>llm := l', conversation := [system_turn (system_prompt st)]\<rparr>)))
           else if startswith (lower user_input) ''/system '' then
             (let new_system = strip (drop 8 user_input) in
              if new_system \<noteq> [] then
                (let st1 = st\<lparr>system_prompt := new_system\<rparr> in
                 case clear_context R (llm st1) of
                   (Inl m, l') \<Rightarrow>
                     on_exception (Exception m) (emit [Call ClearContext] (st1\<lparr>llm := l'\<rparr>))
                 | (Inr u, l') \<Rightarrow>
                     Continue
                       (emit [Call ClearContext, Print (SystemPromptUpdated new_system)]
                          (st1\<lparr>llm := l', conversation := [system_turn new_system]\<rparr>)))
              else Continue (emit [Print UsageHint] st))
           else utterance R st user_input))"

text \<open>The loop: it ends at a \<open>break\<close>, and waits in \<open>input()\<close> when the input is used up.\<close>

fun chat_loop :: "('v, 'l) runtime \<Rightarrow> 'l chat \<Rightarrow> stdin \<Rightarrow> 'l chat chat_result" where
  "chat_loop R st [] = AwaitingInput (emit [Input You] st)"
| "chat_loop R st (inp # rest) =
     (case chat_step R st inp of
        Break st' \<Rightarrow> Terminated st'
      | Continue st' \<Rightarrow> chat_loop R st' rest)"

definition interactive_chat ::
    "('v, 'l) runtime \<Rightarrow> 'l \<Rightarrow> string \<Rightarrow> stdin \<Rightarrow> 'l chat chat_result" where
  "interactive_chat R l prompt inputs =
     chat_loop R
       \<lparr>conversation = [system_turn prompt], system_prompt = prompt, llm = l,
        trace = [Print ChatBanner]\<rparr>
       inputs"

fun final :: "'a chat_result \<Rightarrow> 'a" where
  "final (Terminated st) = st"
| "final (AwaitingInput st) = st"

fun state_of :: "'a loop_ctl \<Rightarrow> 'a" where
  "state_of (Continue st) = st"
| "state_of (Break st) = st"

subsection \<open>Entry point\<close>

text \<open>The parsed command line: \<open>--hef-path\<close> (default \<open>None\<close>) and \<open>--system-prompt\<close>.\<close>

record args =
  hef_path_arg :: "string option"
  system_prompt_arg :: string

text \<open>
  The file system as the program consults it: \<open>Path.exists\<close>, the models directory
  \<open>RESOURCES_ROOT_PATH_DEFAULT / RESOURCES_MODELS_DIR_NAME / HAILO10H_ARCH\<close> (three constants
  of the module that is not among the sources, taken here as one parameter), and its
  listing, \<open>None\<close> when the directory does not exist.
\<close>

record fs =
  path_exists :: "path \<Rightarrow> bool"
  models_dir :: string
  listing :: "string list option"

text \<open>
  Lines 173 to 197 of \<open>main\<close>: find or select the model. \<open>if args.hef_path\<close> is false for
  \<open>None\<close> and for the empty string.
\<close>

definition find_or_select_model :: "args \<Rightarrow> fs \<Rightarrow> stdin \<Rightarrow> event list \<times> select_result" where
  "find_or_select_model a f inputs =
     (if hef_path_arg a \<noteq> None \<and> hef_path_arg a \<noteq> Some [] then
        (let given = the (hef_path_arg a);
             hef_path = Path given;
             hef_path = (if \<not> path_exists f hef_path
                         then Path (given @ HAILO_FILE_EXTENSION) else hef_path)
         in if \<not> path_exists f hef_path
            then ([LogError (ModelNotFound given)], SysExit 1)
            else ([], Selected hef_path inputs))
      else
        (let models = get_downloaded_llm_models (models_dir f) (listing f) in
         if models = [] then ([Print NoModelsFound], SysExit 1)
         else if length models = 1
           then ([Print (UsingOnly (stem (models ! 0)))], Selected (models ! 0) inputs)
           else select_model models inputs))"

text \<open>
  The \<open>finally\<close> block of \<open>main\<close>. The local variables \<open>llm\<close> and \<open>vdevice\<close> are \<open>None\<close>
  until acquired; a handle is taken to be truthy. \<open>clear_context\<close> and \<open>release\<close> stand in
  one \<open>try\<close>, the release of the device in another.
\<close>

definition teardown :: "('v, 'l) runtime \<Rightarrow> 'l option \<Rightarrow> 'v option \<Rightarrow> event list" where
  "teardown R l v =
     (case l of
        None \<Rightarrow> []
      | Some h \<Rightarrow>
          Call ClearContext #
          (case clear_context R h of
             (Inl m, h') \<Rightarrow> [LogWarning (ReleasingLLM m)]
           | (Inr u, h') \<Rightarrow>
               Call ReleaseLLM #
               (case release_llm R h' of
                  Inl m \<Rightarrow> [LogWarning (ReleasingLLM m)]
                | Inr u' \<Rightarrow> [])))
     @
     (case v of
        None \<Rightarrow> []
      | Some d \<Rightarrow>
          Call ReleaseVDevice #
          (case release_vdevice R d of
             Inl m \<Rightarrow> [LogWarning (ReleasingVDevice m)]
           | Inr u \<Rightarrow> []))"

text \<open>
  How the process ends: an exit status (\<open>sys.exit(n)\<close>, or \<open>0\<close> when \<open>main\<close> returns), an
  exception that leaves \<open>main\<close> uncaught, or not yet: blocked in \<open>input()\<close>.
\<close>

datatype outcome = Exit int | Uncaught exn | Blocked

text \<open>
  Lines 218 to 234: how \<open>main\<close> ends once the \<open>try\<close> block has been left, normally
  (\<open>None\<close>) or by an exception. \<open>except Exception\<close> logs and calls \<open>sys.exit(1)\<close>; a
  \<open>KeyboardInterrupt\<close> passes through; the \<open>finally\<close> block runs in every case, with
  the handles acquired so far.
\<close>

definition except_finally ::
    "('v, 'l) runtime \<Rightarrow> 'l option \<Rightarrow> 'v option \<Rightarrow> exn option \<Rightarrow> event list \<times> outcome" where
  "except_finally R l v raised =
     (case raised of
        None \<Rightarrow> (teardown R l v, Exit 0)
      | Some KeyboardInterrupt \<Rightarrow> (teardown R l v, Uncaught KeyboardInterrupt)
      | Some e \<Rightarrow> (LogError (ErrorOccurred e) # teardown R l v, Exit 1))"

text \<open>
  \<open>main\<close>. In the model \<open>interactive_chat\<close> handles every exception of the calls it makes,
  so the \<open>try\<close> block is left by an exception from the two acquisitions only.
\<close>

definition main :: "args \<Rightarrow> fs \<Rightarrow> ('v, 'l) runtime \<Rightarrow> stdin \<Rightarrow> event list \<times> outcome" where
  "main a f R inputs =
     (case find_or_select_model a f inputs of
        (tr, SysExit n) \<Rightarrow> (tr, Exit n)
      | (tr, Raised e) \<Rightarrow> (tr, Uncaught e)
      | (tr, AwaitingChoice) \<Rightarrow> (tr, Blocked)
      | (tr, Selected hef_path rest) \<Rightarrow>
          (let tr1 = tr @ [Print (SelectedModel (stem hef_path)), Print InitDevice, Call NewVDevice]
           in case VDevice R of
                Inl m \<Rightarrow> after tr1 (except_finally R None None (Some (Exception m)))
              | Inr d \<Rightarrow>
                  (let tr2 = tr1 @ [Print DeviceInitialized, Print LoadingModel,
                                    Call (NewLLM (str hef_path))]
                   in case LLM R d (str hef_path) of
                        Inl m \<Rightarrow> after tr2 (except_finally R None (Some d) (Some (Exception m)))
                      | Inr l \<Rightarrow>
                          (case interactive_chat R l (system_prompt_arg a) rest of
                             AwaitingInput st \<Rightarrow> (tr2 @ [Print ModelLoaded] @ trace st, Blocked)
                           | Terminated st \<Rightarrow>
                               after (tr2 @ [Print ModelLoaded] @ trace st)
                                 (except_finally R (Some (llm st)) (Some d) None)))))"

text \<open>
  The status the process ends with, as the interpreter sets it: \<open>sys.exit(n)\<close> and a
  return of \<open>main\<close> give the exit status; an exception that leaves \<open>main\<close> uncaught
  prints its traceback and gives status \<open>1\<close>; an uncaught \<open>KeyboardInterrupt\<close> ends the
  process by the signal \<open>SIGINT\<close>. A blocked process has no status yet.
\<close>

datatype status = ExitStatus int | KilledBySIGINT

definition process_status :: "outcome \<Rightarrow> status option" where
  "process_status out =
     (case out of
        Exit n \<Rightarrow> Some (ExitStatus n)
      | Uncaught KeyboardInterrupt \<Rightarrow> Some KilledBySIGINT
      | Uncaught e \<Rightarrow> Some (ExitStatus 1)
      | Blocked \<Rightarrow> None)"

subsection \<open>Test doubles\<close>

text \<open>
  A stubbed runtime whose generation returns \<open>hi there\<close>; the handle's state counts the
  turns the model holds in its context. And the same runtime with a failing context reset.
\<close>

definition stub_runtime :: "(unit, nat) runtime" where
  "stub_runtime =
     \<lparr>VDevice = Inr (), LLM = (\<lambda>d p. Inr 0),
      generate_all = (\<lambda>h prompt temperature max_generated_tokens. (Inr ''hi there'', Suc h)),
      clear_context = (\<lambda>h. (Inr (), 0)),
      release_llm = (\<lambda>h. Inr ()), release_vdevice = (\<lambda>d. Inr ())\<rparr>"

definition failing_reset_runtime :: "(unit, nat) runtime" where
  "failing_reset_runtime = stub_runtime\<lparr>clear_context := (\<lambda>h. (Inl ''reset failed'', h))\<rparr>"

section \<open>Properties\<close>

subsection \<open>Strings\<close>

lemma startswith_iff: "startswith s p \<longleftrightarrow> (\<exists>t. s = p @ t)"
  by (induction s p rule: startswith.induct) auto

lemma endswith_iff: "endswith s p \<longleftrightarrow> (\<exists>t. s = t @ p)"
proof -
  have "endswith s p \<longleftrightarrow> (\<exists>t. rev s = rev p @ t)"
    by (simp add: endswith_def startswith_iff)
  also have "\<dots> \<longleftrightarrow> (\<exists>t. s = t @ p)"
  proof
    assume "\<exists>t. rev s = rev p @ t"
    then obtain t where "rev s = rev p @ t" ..
    then have "rev (rev s) = rev (rev p @ t)" by simp
    then have "s = rev t @ p" by simp
    then show "\<exists>t. s = t @ p" ..
  next
    assume "\<exists>t. s = t @ p"
    then obtain t where "s = t @ p" ..
    then have "rev s = rev p @ rev t" by simp
    then show "\<exists>t. rev s = rev p @ t" ..
  qed
  finally show ?thesis .
qed

lemma contains_iff: "contains s p \<longleftrightarrow> (\<exists>u v. s = u @ p @ v)"
proof (induction s)
  case Nil
  show ?case by auto
next
  case (Cons c cs)
  show ?case
  proof
    assume "contains (c # cs) p"
    then consider "startswith (c # cs) p" | "contains cs p" by auto
    then show "\<exists>u v. c # cs = u @ p @ v"
    proof cases
      case 1
      then obtain t where "c # cs = p @ t" by (auto simp: startswith_iff)
      then have "c # cs = [] @ p @ t" by simp
      then show ?thesis by blast
    next
      case 2
      with Cons.IH obtain u v where "cs = u @ p @ v" by auto
      then have "c # cs = (c # u) @ p @ v" by simp
      then show ?thesis by blast
    qed
  next
    assume "\<exists>u v. c # cs = u @ p @ v"
    then obtain u v where uv: "c # cs = u @ p @ v" by blast
    show "contains (c # cs) p"
    proof (cases u)
      case Nil
      with uv have "startswith (c # cs) p" by (auto simp: startswith_iff)
      then show ?thesis by simp
    next
      case (Cons a u')
      with uv have "cs = u' @ p @ v" by simp
      with Cons.IH have "contains cs p" by blast
      then show ?thesis by simp
    qed
  qed
qed

subsection \<open>Model locator\<close>

lemma name_glob_ext:
  "map name (filter P (glob_ext d entries)) =
   filter (\<lambda>n. endswith n HAILO_FILE_EXTENSION \<and> P \<lparr>parent = d @ ''/'', name = n\<rparr>) entries"
  by (induction entries) (auto simp: glob_ext_def)

lemma parent_glob_ext: "p \<in> set (glob_ext d entries) \<Longrightarrow> parent p = d @ ''/''"
  by (auto simp: glob_ext_def)

text \<open>
  C4. \<open>get_downloaded_llm_models\<close> returns the empty list when the models directory does
  not exist. Otherwise it returns exactly the entries of the directory (each as often as
  the listing has it) whose name ends with the model file extension and whose stem,
  lowercased, contains one of the markers of \<open>llm_patterns\<close>; every returned path lies
  directly under the models directory; and the result is sorted ascending by lowercased
  stem, strings compared by code point and \<open>lower\<close> being \<open>str.lower\<close> (so that a
  Latin-1 capital sorts with its small letter). The function has no raising branch.
\<close>

theorem get_downloaded_llm_models_exact_sorted:
  "get_downloaded_llm_models d None = [] \<and>
   mset (map name (get_downloaded_llm_models d (Some entries))) =
     {#n \<in># mset entries.
        (\<exists>s. n = s @ HAILO_FILE_EXTENSION) \<and>
        (\<exists>pattern \<in> set llm_patterns.
           \<exists>u v. lower (stem \<lparr>parent = d @ ''/'', name = n\<rparr>) = u @ pattern @ v)#} \<and>
   (\<forall>p \<in> set (get_downloaded_llm_models d (Some entries)). parent p = d @ ''/'') \<and>
   sorted (map (\<lambda>p. lower (stem p)) (get_downloaded_llm_models d (Some entries)))"
proof -
  let ?P = "\<lambda>hef_file. list_ex (\<lambda>pattern. contains (lower (stem hef_file)) pattern) llm_patterns"
  have r: "get_downloaded_llm_models d (Some entries) =
        sort_key (\<lambda>p. lower (stem p)) (filter ?P (glob_ext d entries))"
    by (simp add: get_downloaded_llm_models_def)
  have "mset (map name (get_downloaded_llm_models d (Some entries))) =
        mset (map name (filter ?P (glob_ext d entries)))"
    unfolding r by (simp only: mset_map mset_sort)
  also have "\<dots> =
      mset (filter (\<lambda>n. endswith n HAILO_FILE_EXTENSION \<and> ?P \<lparr>parent = d @ ''/'', name = n\<rparr>) entries)"
    by (simp only: name_glob_ext)
  also have "\<dots> = {#n \<in># mset entries.
        (\<exists>s. n = s @ HAILO_FILE_EXTENSION) \<and>
        (\<exists>pattern \<in> set llm_patterns.
           \<exists>u v. lower (stem \<lparr>parent = d @ ''/'', name = n\<rparr>) = u @ pattern @ v)#}"
    by (simp add: endswith_iff contains_iff list_ex_iff)
  finally have m: "mset (map name (get_downloaded_llm_models d (Some entries))) = \<dots>" .
  have p: "\<forall>p \<in> set (get_downloaded_llm_models d (Some entries)). parent p = d @ ''/''"
    unfolding r by (auto dest: parent_glob_ext)
  have s: "sorted (map (\<lambda>p. lower (stem p)) (get_downloaded_llm_models d (Some entries)))"
    unfolding r by (rule sorted_sort_key)
  have n: "get_downloaded_llm_models d None = []"
    by (simp add: get_downloaded_llm_models_def)
  from n m p s show ?thesis by blast
qed

theorem get_downloaded_llm_models_exact_sorted_witness:
  "get_downloaded_llm_models ''/m''
       (Some [''b-chat.hef'', ''Qwen.hef'', ''yolo.hef'', ''a-chat.txt'', ''phi3.hef''])
     = [\<lparr>parent = ''/m/'', name = ''b-chat.hef''\<rparr>, \<lparr>parent = ''/m/'', name = ''phi3.hef''\<rparr>,
        \<lparr>parent = ''/m/'', name = ''Qwen.hef''\<rparr>] \<and>
   sorted (map (\<lambda>p. lower (stem p))
     (get_downloaded_llm_models ''/m''
        (Some [''b-chat.hef'', ''Qwen.hef'', ''yolo.hef'', ''a-chat.txt'', ''phi3.hef'']))) \<and>
   map name (get_downloaded_llm_models ''/m''
       (Some [CHR 0xC0 # ''b-chat.hef'', CHR 0xE0 # ''a-chat.hef'', ''z-chat.hef''])) =
     [''z-chat.hef'', CHR 0xE0 # ''a-chat.hef'', CHR 0xC0 # ''b-chat.hef''] \<and>
   sorted (map (\<lambda>p. lower (stem p))
     (get_downloaded_llm_models ''/m''
        (Some [CHR 0xC0 # ''b-chat.hef'', CHR 0xE0 # ''a-chat.hef'', ''z-chat.hef''])))"
proof -
  have e: "get_downloaded_llm_models ''/m''
       (Some [''b-chat.hef'', ''Qwen.hef'', ''yolo.hef'', ''a-chat.txt'', ''phi3.hef''])
     = [\<lparr>parent = ''/m/'', name = ''b-chat.hef''\<rparr>, \<lparr>parent = ''/m/'', name = ''phi3.hef''\<rparr>,
        \<lparr>parent = ''/m/'', name = ''Qwen.hef''\<rparr>]"
    by code_simp
  have l: "map name (get_downloaded_llm_models ''/m''
       (Some [CHR 0xC0 # ''b-chat.hef'', CHR 0xE0 # ''a-chat.hef'', ''z-chat.hef''])) =
     [''z-chat.hef'', CHR 0xE0 # ''a-chat.hef'', CHR 0xC0 # ''b-chat.hef'']"
    by code_simp
  from e l
    get_downloaded_llm_models_exact_sorted
      [of "''/m''" "[''b-chat.hef'', ''Qwen.hef'', ''yolo.hef'', ''a-chat.txt'', ''phi3.hef'']"]
    get_downloaded_llm_models_exact_sorted
      [of "''/m''" "[CHR 0xC0 # ''b-chat.hef'', CHR 0xE0 # ''a-chat.hef'', ''z-chat.hef'']"]
  show ?thesis by blast
qed

subsection \<open>Splitting and stripping\<close>

lemma split_first_absent: "\<not> contains s sep \<Longrightarrow> split_first s sep = s"
  by (induction s) auto

lemma split_first_present: "contains s sep \<Longrightarrow> \<exists>rest. s = split_first s sep @ sep @ rest"
proof (induction s)
  case Nil
  then show ?case by simp
next
  case (Cons c cs)
  show ?case
  proof (cases "startswith (c # cs) sep")
    case True
    then show ?thesis by (auto simp: startswith_iff)
  next
    case False
    with Cons.prems have "contains cs sep" by simp
    with Cons.IH obtain rest where "cs = split_first cs sep @ sep @ rest" by blast
    with False show ?thesis by auto
  qed
qed

lemma split_first_earliest: "s = u @ sep @ v \<Longrightarrow> length (split_first s sep) \<le> length u"
proof (induction s arbitrary: u)
  case Nil
  then show ?case by simp
next
  case (Cons c cs)
  show ?case
  proof (cases "startswith (c # cs) sep")
    case True
    then show ?thesis by simp
  next
    case False
    with Cons.prems have "u \<noteq> []" by (auto simp: startswith_iff)
    then obtain u' where u: "u = c # u'" using Cons.prems by (cases u) auto
    with Cons.prems have "cs = u' @ sep @ v" by simp
    from Cons.IH [OF this] False u show ?thesis by simp
  qed
qed

lemma strip_system_blank:
  assumes "list_all is_space ws"
  shows "strip (''/system '' @ ws) = ''/system''"
proof -
  have a: "dropWhile is_space (''/system '' @ ws) = ''/system '' @ ws"
    by (simp add: is_space_def)
  have "dropWhile is_space (rev ws @ rev ''/system '') = dropWhile is_space (rev ''/system '')"
    using assms by (intro dropWhile_append2) (simp add: list_all_iff)
  then have b: "dropWhile is_space (rev (''/system '' @ ws)) = rev ''/system''"
    by (simp add: is_space_def)
  show ?thesis unfolding strip_def a b by simp
qed

lemma lower_system: "lower ''/system'' = ''/system''"
  by code_simp

subsection \<open>Chat loop\<close>

lemma emit_fields [simp]:
  "conversation (emit es st) = conversation st"
  "system_prompt (emit es st) = system_prompt st"
  "llm (emit es st) = llm st"
  "trace (emit es st) = trace st @ es"
  by (simp_all add: emit_def)

lemma utterance_failed:
  assumes "generate_all R (llm st) (conversation st @ [user_turn u]) (7 / 10) 500 = (Inl e, l')"
  shows "utterance R st u =
     on_exception e
       \<lparr>conversation = conversation st @ [user_turn u], system_prompt = system_prompt st,
        llm = l',
        trace = trace st @ [Print AssistantPrefix,
                  Call (GenerateAll (conversation st @ [user_turn u]) (7 / 10) 500)]\<rparr>"
  using assms by (cases st) (simp add: utterance_def emit_def Let_def)

lemma utterance_answered:
  assumes "generate_all R (llm st) (conversation st @ [user_turn u]) (7 / 10) 500 = (Inr response, l')"
  shows "utterance R st u =
     Continue
       \<lparr>conversation = conversation st @
               [user_turn u, assistant_turn (split_first response metadata_marker)],
        system_prompt = system_prompt st,
        llm = l',
        trace = trace st @ [Print AssistantPrefix,
                  Call (GenerateAll (conversation st @ [user_turn u]) (7 / 10) 500),
                  Print (Response (split_first response metadata_marker)), Print BlankLine]\<rparr>"
  using assms by (cases st) (simp add: utterance_def emit_def Let_def)

lemma on_exception_fields [simp]:
  "conversation (state_of (on_exception e st)) = conversation st"
  "system_prompt (state_of (on_exception e st)) = system_prompt st"
  "llm (state_of (on_exception e st)) = llm st"
  by (cases e; simp add: on_exception_def)+

lemma on_exception_trace:
  "trace (state_of (on_exception e st)) =
     trace st @ (if e = KeyboardInterrupt then [Print Interrupted]
                 else [LogError (GeneratingResponse e), Print (ErrorReport e)])"
  by (cases e) (simp_all add: on_exception_def)

lemma utterance_effect:
  "\<exists>es ts. trace (state_of (utterance R st u)) =
             trace st @ [Print AssistantPrefix,
                         Call (GenerateAll (conversation st @ [user_turn u]) (7 / 10) 500)] @ es \<and>
           Print UsageHint \<notin> set es \<and> Call ClearContext \<notin> set es \<and>
           conversation (state_of (utterance R st u)) = conversation st @ user_turn u # ts \<and>
           list_all (\<lambda>t. role t = Assistant) ts \<and>
           system_prompt (state_of (utterance R st u)) = system_prompt st"
proof (cases "generate_all R (llm st) (conversation st @ [user_turn u]) (7 / 10) 500")
  case (Pair res l')
  show ?thesis
  proof (cases res)
    case (Inl e)
    with Pair show ?thesis
      by (simp add: utterance_failed on_exception_trace)
  next
    case (Inr response)
    with Pair show ?thesis
      by (simp add: utterance_answered assistant_turn_def)
  qed
qed

lemma chat_step_utterance:
  assumes "strip line \<noteq> []" "lower (strip line) \<noteq> ''/quit''" "lower (strip line) \<noteq> ''/exit''"
    "lower (strip line) \<noteq> ''/clear''" "\<not> startswith (lower (strip line)) ''/system ''"
  shows "chat_step R st (Inr line) = utterance R (emit [Input You] st) (strip line)"
  using assms by (simp add: chat_step_def Let_def)

lemma chat_step_bare_system:
  assumes "lower (strip line) = ''/system''"
  shows "chat_step R st (Inr line) = utterance R (emit [Input You] st) (strip line)"
proof (rule chat_step_utterance)
  show "strip line \<noteq> []" using assms by (auto simp: lower_def)
qed (simp_all add: assms)

lemma chat_step_conversation:
  "conversation (state_of (chat_step R st inp)) = conversation st \<or>
   (\<exists>p. conversation (state_of (chat_step R st inp)) = [system_turn p]) \<or>
   (\<exists>u ts. conversation (state_of (chat_step R st inp)) = conversation st @ user_turn u # ts \<and>
           list_all (\<lambda>t. role t = Assistant) ts)"
proof (cases inp)
  case (Inl e)
  then show ?thesis by (simp add: chat_step_def)
next
  case (Inr line)
  consider (blank) "strip line = []"
    | (quit) "strip line \<noteq> []" "lower (strip line) = ''/quit'' \<or> lower (strip line) = ''/exit''"
    | (clear) "strip line \<noteq> []" "lower (strip line) = ''/clear''"
    | (system) "strip line \<noteq> []" "startswith (lower (strip line)) ''/system ''"
    | (other) "strip line \<noteq> []" "lower (strip line) \<noteq> ''/quit''" "lower (strip line) \<noteq> ''/exit''"
        "lower (strip line) \<noteq> ''/clear''" "\<not> startswith (lower (strip line)) ''/system ''"
    by blast
  then show ?thesis
  proof cases
    case blank
    with Inr show ?thesis by (simp add: chat_step_def)
  next
    case quit
    with Inr show ?thesis by (auto simp: chat_step_def)
  next
    case clear
    with Inr show ?thesis
      by (cases "clear_context R (llm st)")
         (auto simp: chat_step_def Let_def split: sum.splits)
  next
    case system
    then have "lower (strip line) \<noteq> ''/quit''" "lower (strip line) \<noteq> ''/exit''"
      "lower (strip line) \<noteq> ''/clear''"
      by (auto simp: startswith_iff)
    with system Inr show ?thesis
      by (cases "clear_context R (llm st)")
         (auto simp: chat_step_def Let_def split: sum.splits)
  next
    case other
    then have "chat_step R st (Inr line) = utterance R (emit [Input You] st) (strip line)"
      by (rule chat_step_utterance)
    with Inr utterance_effect [of R "emit [Input You] st" "strip line"] show ?thesis
      by auto
  qed
qed

lemma one_system_first_step:
  assumes "c \<noteq> []" "role (hd c) = System" "length (filter (\<lambda>t. role t = System) c) = 1"
  shows "conversation (state_of (chat_step R (st\<lparr>conversation := c\<rparr>) inp)) \<noteq> [] \<and>
         role (hd (conversation (state_of (chat_step R (st\<lparr>conversation := c\<rparr>) inp)))) = System \<and>
         length (filter (\<lambda>t. role t = System)
           (conversation (state_of (chat_step R (st\<lparr>conversation := c\<rparr>) inp)))) = 1"
proof -
  let ?c' = "conversation (state_of (chat_step R (st\<lparr>conversation := c\<rparr>) inp))"
  have "?c' = c \<or> (\<exists>p. ?c' = [system_turn p]) \<or>
        (\<exists>u ts. ?c' = c @ user_turn u # ts \<and> list_all (\<lambda>t. role t = Assistant) ts)"
    using chat_step_conversation [of R "st\<lparr>conversation := c\<rparr>" inp] by simp
  then consider "?c' = c" | p where "?c' = [system_turn p]"
    | u ts where "?c' = c @ user_turn u # ts" "list_all (\<lambda>t. role t = Assistant) ts"
    by blast
  then show ?thesis
  proof cases
    case 1
    with assms show ?thesis by simp
  next
    case 2
    then show ?thesis by (simp add: system_turn_def)
  next
    case 3
    from 3(2) have "filter (\<lambda>t. role t = System) ts = []"
      by (induction ts) auto
    with 3(1) assms show ?thesis by (simp add: user_turn_def)
  qed
qed

lemma one_system_first_loop:
  assumes "conversation st \<noteq> []" "role (hd (conversation st)) = System"
    "length (filter (\<lambda>t. role t = System) (conversation st)) = 1"
  shows "conversation (final (chat_loop R st inputs)) \<noteq> [] \<and>
         role (hd (conversation (final (chat_loop R st inputs)))) = System \<and>
         length (filter (\<lambda>t. role t = System) (conversation (final (chat_loop R st inputs)))) = 1"
  using assms
proof (induction inputs arbitrary: st)
  case Nil
  then show ?case by simp
next
  case (Cons inp rest)
  from one_system_first_step [OF Cons.prems, of R st inp]
  have step: "conversation (state_of (chat_step R st inp)) \<noteq> []"
    "role (hd (conversation (state_of (chat_step R st inp)))) = System"
    "length (filter (\<lambda>t. role t = System) (conversation (state_of (chat_step R st inp)))) = 1"
    by simp_all
  show ?case
  proof (cases "chat_step R st inp")
    case (Continue st')
    with step Cons.IH [of st'] show ?thesis by simp
  next
    case (Break st')
    with step show ?thesis by simp
  qed
qed

text \<open>
  C8. For a user utterance whose generation call returns a text, the loop keeps the text
  before the first occurrence of the marker \<open>metadata_marker\<close>, and the whole text when the
  marker does not occur. That truncated text is what is printed and what is appended to
  the transcript as the assistant turn.
\<close>

theorem response_truncated_at_metadata_marker:
  assumes "strip line \<noteq> []"
    and "lower (strip line) \<notin> {''/quit'', ''/exit'', ''/clear''}"
    and "\<not> startswith (lower (strip line)) ''/system ''"
    and "generate_all R (llm st) (conversation st @ [user_turn (strip line)]) (7 / 10) 500
           = (Inr response, l')"
  shows "\<exists>st' clean.
           chat_step R st (Inr line) = Continue st' \<and>
           conversation st' = conversation st @ [user_turn (strip line), assistant_turn clean] \<and>
           trace st' = trace st @
             [Input You, Print AssistantPrefix,
              Call (GenerateAll (conversation st @ [user_turn (strip line)]) (7 / 10) 500),
              Print (Response clean), Print BlankLine] \<and>
           clean = split_first response metadata_marker \<and>
           ((\<nexists>u v. response = u @ metadata_marker @ v) \<longrightarrow> clean = response) \<and>
           ((\<exists>u v. response = u @ metadata_marker @ v) \<longrightarrow>
              (\<exists>rest. response = clean @ metadata_marker @ rest) \<and>
              (\<forall>u v. response = u @ metadata_marker @ v \<longrightarrow> length clean \<le> length u))"
proof -
  let ?clean = "split_first response metadata_marker"
  from assms(1-3) have "chat_step R st (Inr line) = utterance R (emit [Input You] st) (strip line)"
    by (intro chat_step_utterance) auto
  also from assms(4) have "\<dots> =
      Continue
       \<lparr>conversation = conversation st @ [user_turn (strip line), assistant_turn ?clean],
        system_prompt = system_prompt st,
        llm = l',
        trace = trace st @ [Input You] @ [Print AssistantPrefix,
                  Call (GenerateAll (conversation st @ [user_turn (strip line)]) (7 / 10) 500),
                  Print (Response ?clean), Print BlankLine]\<rparr>"
    by (simp add: utterance_answered)
  finally have step: "chat_step R st (Inr line) = Continue
       \<lparr>conversation = conversation st @ [user_turn (strip line), assistant_turn ?clean],
        system_prompt = system_prompt st,
        llm = l',
        trace = trace st @ [Input You, Print AssistantPrefix,
                  Call (GenerateAll (conversation st @ [user_turn (strip line)]) (7 / 10) 500),
                  Print (Response ?clean), Print BlankLine]\<rparr>"
    by simp
  let ?st' = "\<lparr>conversation = conversation st @ [user_turn (strip line), assistant_turn ?clean],
        system_prompt = system_prompt st,
        llm = l',
        trace = trace st @ [Input You, Print AssistantPrefix,
                  Call (GenerateAll (conversation st @ [user_turn (strip line)]) (7 / 10) 500),
                  Print (Response ?clean), Print BlankLine]\<rparr>"
  have conv: "conversation ?st' = conversation st @ [user_turn (strip line), assistant_turn ?clean]"
    by simp
  have tr: "trace ?st' = trace st @
             [Input You, Print AssistantPrefix,
              Call (GenerateAll (conversation st @ [user_turn (strip line)]) (7 / 10) 500),
              Print (Response ?clean), Print BlankLine]"
    by simp
  have absent: "(\<nexists>u v. response = u @ metadata_marker @ v) \<longrightarrow> ?clean = response"
    using split_first_absent [of response metadata_marker] by (simp add: contains_iff)
  have present: "(\<exists>u v. response = u @ metadata_marker @ v) \<longrightarrow>
              (\<exists>rest. response = ?clean @ metadata_marker @ rest) \<and>
              (\<forall>u v. response = u @ metadata_marker @ v \<longrightarrow> length ?clean \<le> length u)"
  proof (intro impI conjI allI)
    assume "\<exists>u v. response = u @ metadata_marker @ v"
    then have "contains response metadata_marker" by (simp add: contains_iff)
    then show "\<exists>rest. response = ?clean @ metadata_marker @ rest" by (rule split_first_present)
  next
    fix u v
    assume "response = u @ metadata_marker @ v"
    then show "length ?clean \<le> length u" by (rule split_first_earliest)
  qed
  show ?thesis
    by (rule exI [of _ ?st'], rule exI [of _ ?clean], intro conjI)
       (rule step conv tr refl absent present)+
qed

theorem response_truncated_at_metadata_marker_witness:
  "\<exists>st'. chat_step
            (stub_runtime\<lparr>generate_all :=
               (\<lambda>h prompt t m. (Inr (''Paris. '' @ metadata_marker @ '': text}]''), Suc h))\<rparr>)
            \<lparr>conversation = [system_turn ''be brief''], system_prompt = ''be brief'', llm = 0, trace = []\<rparr>
            (Inr ''capital of France?'') = Continue st' \<and>
         conversation st' =
           [system_turn ''be brief'', user_turn ''capital of France?'', assistant_turn ''Paris. '']"
proof -
  let ?R = "stub_runtime\<lparr>generate_all :=
               (\<lambda>h prompt t m. (Inr (''Paris. '' @ metadata_marker @ '': text}]''), Suc h))\<rparr>"
  let ?st = "\<lparr>conversation = [system_turn ''be brief''], system_prompt = ''be brief'', llm = 0::nat, trace = []\<rparr>"
  have s: "strip ''capital of France?'' = ''capital of France?''" by code_simp
  have c: "split_first (''Paris. '' @ metadata_marker @ '': text}]'') metadata_marker = ''Paris. ''"
    by code_simp
  have h1: "strip ''capital of France?'' \<noteq> []" by code_simp
  have h2: "lower (strip ''capital of France?'') \<notin> {''/quit'', ''/exit'', ''/clear''}" by code_simp
  have h3: "\<not> startswith (lower (strip ''capital of France?'')) ''/system ''" by code_simp
  have h4: "generate_all ?R (llm ?st) (conversation ?st @ [user_turn (strip ''capital of France?'')]) (7 / 10) 500
      = (Inr (''Paris. '' @ metadata_marker @ '': text}]''), Suc 0)"
    by (simp add: stub_runtime_def)
  from response_truncated_at_metadata_marker [OF h1 h2 h3 h4]
  show ?thesis unfolding s c by auto
qed

text \<open>
  C10. A line that after stripping is \<open>/system\<close> alone (in any letter case) is not taken
  as the system-prompt command: there is no usage hint and no context reset, the active
  prompt stays, the line is appended to the transcript as a user turn and the generation
  operation is called with that transcript.
\<close>

theorem bare_system_is_an_utterance:
  assumes "lower (strip line) = ''/system''"
  shows "\<exists>es ts.
           trace (state_of (chat_step R st (Inr line))) =
             trace st @ [Input You, Print AssistantPrefix,
                         Call (GenerateAll (conversation st @ [user_turn (strip line)]) (7 / 10) 500)] @ es \<and>
           Print UsageHint \<notin> set es \<and> Call ClearContext \<notin> set es \<and>
           conversation (state_of (chat_step R st (Inr line))) =
             conversation st @ user_turn (strip line) # ts \<and>
           list_all (\<lambda>t. role t = Assistant) ts \<and>
           system_prompt (state_of (chat_step R st (Inr line))) = system_prompt st"
  using utterance_effect [of R "emit [Input You] st" "strip line"] chat_step_bare_system [OF assms, of R st]
  by simp

theorem bare_system_is_an_utterance_witness:
  "conversation (state_of (chat_step stub_runtime
       \<lparr>conversation = [system_turn ''be brief''], system_prompt = ''be brief'', llm = 0, trace = []\<rparr>
       (Inr ''/system''))) =
     [system_turn ''be brief'', user_turn ''/system'', assistant_turn ''hi there''] \<and>
   Print UsageHint \<notin> set (trace (state_of (chat_step stub_runtime
       \<lparr>conversation = [system_turn ''be brief''], system_prompt = ''be brief'', llm = 0, trace = []\<rparr>
       (Inr ''/system''))))"
proof -
  let ?st = "\<lparr>conversation = [system_turn ''be brief''], system_prompt = ''be brief'', llm = 0::nat, trace = []\<rparr>"
  have h: "lower (strip ''/system'') = ''/system''" by code_simp
  have s: "strip ''/system'' = ''/system''" by code_simp
  have g: "state_of (utterance stub_runtime (emit [Input You] ?st) ''/system'') =
     \<lparr>conversation = [system_turn ''be brief'', user_turn ''/system'', assistant_turn ''hi there''],
      system_prompt = ''be brief'', llm = 1,
      trace = [Input You, Print AssistantPrefix,
               Call (GenerateAll [system_turn ''be brief'', user_turn ''/system''] (7 / 10) 500),
               Print (Response ''hi there''), Print BlankLine]\<rparr>"
    by code_simp
  from bare_system_is_an_utterance [OF h, of stub_runtime ?st] obtain es where
    t: "trace (state_of (chat_step stub_runtime ?st (Inr ''/system''))) =
             trace ?st @ [Input You, Print AssistantPrefix,
                         Call (GenerateAll (conversation ?st @ [user_turn (strip ''/system'')]) (7 / 10) 500)] @ es"
    and u: "Print UsageHint \<notin> set es"
    by blast
  have c: "conversation (state_of (chat_step stub_runtime ?st (Inr ''/system''))) =
     [system_turn ''be brief'', user_turn ''/system'', assistant_turn ''hi there'']"
    by code_simp
  from t u c show ?thesis by simp
qed

lemma strip_last_not_space: "strip s \<noteq> [] \<Longrightarrow> \<not> is_space (last (strip s))"
proof -
  assume n: "strip s \<noteq> []"
  let ?d = "dropWhile is_space (rev (dropWhile is_space s))"
  from n have "?d \<noteq> []" by (simp add: strip_def)
  then have "\<not> is_space (hd ?d)" by (rule hd_dropWhile)
  moreover from \<open>?d \<noteq> []\<close> have "last (strip s) = hd ?d"
    by (simp add: strip_def last_rev)
  ultimately show ?thesis by simp
qed

lemma strip_empty_all_space: "strip s = [] \<Longrightarrow> list_all is_space s"
proof -
  assume "strip s = []"
  then have "dropWhile is_space (rev (dropWhile is_space s)) = []" by (simp add: strip_def)
  then have a: "\<forall>c \<in> set (dropWhile is_space s). is_space c"
    by simp
  have "dropWhile is_space s = []"
  proof (rule ccontr)
    assume n: "dropWhile is_space s \<noteq> []"
    then have "\<not> is_space (hd (dropWhile is_space s))" by (rule hd_dropWhile)
    moreover from n have "hd (dropWhile is_space s) \<in> set (dropWhile is_space s)" by simp
    ultimately show False using a by blast
  qed
  then show ?thesis by (simp add: list_all_iff)
qed

lemma lower_char_moves:
  "lower_char c = c \<or>
   ((of_char (lower_char c) :: nat) = of_char c + 32 \<and> 65 \<le> (of_char c :: nat))"
proof (cases "(65 \<le> (of_char c :: nat) \<and> (of_char c :: nat) \<le> 90) \<or>
              (192 \<le> (of_char c :: nat) \<and> (of_char c :: nat) \<le> 222 \<and> (of_char c :: nat) \<noteq> 215)")
  case True
  then have "lower_char c = char_of (of_char c + 32 :: nat)"
    by (auto simp: lower_char_def Let_def)
  then have "(of_char (lower_char c) :: nat) = (of_char c + 32) mod 256"
    by simp
  with True show ?thesis by auto
next
  case False
  then have "lower_char c = c" by (auto simp: lower_char_def Let_def)
  then show ?thesis ..
qed

lemma lower_char_space: "lower_char c = CHR '' '' \<Longrightarrow> c = CHR '' ''"
  using lower_char_moves [of c] by auto

lemma system_command_has_text:
  assumes "startswith (lower (strip line)) ''/system ''"
  shows "strip (drop 8 (strip line)) \<noteq> []"
proof
  let ?u = "strip line"
  assume e: "strip (drop 8 ?u) = []"
  from assms obtain t where t: "lower ?u = ''/system '' @ t" by (auto simp: startswith_iff)
  then have len: "8 \<le> length ?u" 
    using length_map [of lower_char ?u] by (simp add: lower_def)
  then have ne: "?u \<noteq> []" by auto
  from e have sp: "list_all is_space (drop 8 ?u)" by (rule strip_empty_all_space)
  have "is_space (last ?u)"
  proof (cases "drop 8 ?u = []")
    case True
    with len have l8: "length ?u = 8" by simp
    then have "last ?u = ?u ! 7" using ne by (simp add: last_conv_nth)
    moreover have "lower ?u ! 7 = CHR '' ''" using t by simp
    then have "lower_char (?u ! 7) = CHR '' ''" using l8 by (simp add: lower_def)
    then have "?u ! 7 = CHR '' ''" by (rule lower_char_space)
    ultimately show ?thesis by (simp add: is_space_def)
  next
    case False
    then have "last (drop 8 ?u) = last ?u" by simp
    moreover from False sp have "is_space (last (drop 8 ?u))"
      by (metis last_in_set list_all_iff)
    ultimately show ?thesis by simp
  qed
  with strip_last_not_space [OF ne] show False by simp
qed

lemma chat_step_never_usage_hint:
  "\<exists>es. trace (state_of (chat_step R st inp)) = trace st @ es \<and> Print UsageHint \<notin> set es"
proof (cases inp)
  case (Inl e)
  then show ?thesis by (simp add: chat_step_def on_exception_trace)
next
  case (Inr line)
  consider (blank) "strip line = []"
    | (quit) "strip line \<noteq> []" "lower (strip line) = ''/quit'' \<or> lower (strip line) = ''/exit''"
    | (clear) "strip line \<noteq> []" "lower (strip line) = ''/clear''"
    | (system) "strip line \<noteq> []" "startswith (lower (strip line)) ''/system ''"
    | (other) "strip line \<noteq> []" "lower (strip line) \<noteq> ''/quit''" "lower (strip line) \<noteq> ''/exit''"
        "lower (strip line) \<noteq> ''/clear''" "\<not> startswith (lower (strip line)) ''/system ''"
    by blast
  then show ?thesis
  proof cases
    case blank
    with Inr show ?thesis by (simp add: chat_step_def)
  next
    case quit
    with Inr show ?thesis by (auto simp: chat_step_def)
  next
    case clear
    with Inr show ?thesis
      by (cases "clear_context R (llm st)")
         (auto simp: chat_step_def Let_def on_exception_trace split: sum.splits)
  next
    case system
    then have "lower (strip line) \<noteq> ''/quit''" "lower (strip line) \<noteq> ''/exit''"
      "lower (strip line) \<noteq> ''/clear''"
      by (auto simp: startswith_iff)
    moreover from system have "strip (drop 8 (strip line)) \<noteq> []"
      by (intro system_command_has_text)
    ultimately show ?thesis using system Inr
      by (cases "clear_context R (llm st)")
         (auto simp: chat_step_def Let_def on_exception_trace split: sum.splits)
  next
    case other
    then have "chat_step R st (Inr line) = utterance R (emit [Input You] st) (strip line)"
      by (rule chat_step_utterance)
    with Inr utterance_effect [of R "emit [Input You] st" "strip line"] show ?thesis
      by auto
  qed
qed

text \<open>
  C1 fails as stated, in its second half. When the context reset raises, \<open>/clear\<close> and
  \<open>/system\<close> do not reset the transcript: the exception leaves the \<open>try\<close> block before
  the assignment to \<open>conversation\<close> (lines 101 to 104 and 112 to 115), and the turns so
  far stay. On \<open>/system\<close> the prompt has been replaced by then (line 111).
\<close>

theorem failed_reset_leaves_transcript_unreset:
  "conversation (state_of (chat_step failing_reset_runtime
       \<lparr>conversation = [system_turn ''be brief'', user_turn ''hello'', assistant_turn ''hi there''],
        system_prompt = ''be brief'', llm = 1, trace = []\<rparr> (Inr ''/clear''))) =
     [system_turn ''be brief'', user_turn ''hello'', assistant_turn ''hi there''] \<and>
   conversation (state_of (chat_step failing_reset_runtime
       \<lparr>conversation = [system_turn ''be brief'', user_turn ''hello'', assistant_turn ''hi there''],
        system_prompt = ''be brief'', llm = 1, trace = []\<rparr> (Inr ''/system be kind''))) =
     [system_turn ''be brief'', user_turn ''hello'', assistant_turn ''hi there''] \<and>
   system_prompt (state_of (chat_step failing_reset_runtime
       \<lparr>conversation = [system_turn ''be brief'', user_turn ''hello'', assistant_turn ''hi there''],
        system_prompt = ''be brief'', llm = 1, trace = []\<rparr> (Inr ''/system be kind''))) = ''be kind''"
  by code_simp

text \<open>
  C1, amended. Whatever the chat loop reads (utterances, commands, blank lines, exceptions
  of \<open>input()\<close>) and whatever the model handle answers, the transcript of
  \<open>interactive_chat\<close> holds exactly one system turn, and it is the first element. This
  holds for the state reached after any list of inputs, hence at every moment of a run.
  A \<open>/clear\<close>, and a \<open>/system\<close> with text, whose context reset returns, leave the
  transcript as the single fresh system turn (for \<open>/system\<close> with the new prompt, which
  is then the active one; the text after \<open>/system\<close> is never empty). When the context
  reset raises, the transcript is left as it was; on \<open>/system\<close> the active prompt is the
  new one all the same.
\<close>

theorem transcript_one_system_turn_reset_when_reset_returns:
  "(conversation (final (interactive_chat R l p inputs)) \<noteq> [] \<and>
    role (hd (conversation (final (interactive_chat R l p inputs)))) = System \<and>
    length (filter (\<lambda>t. role t = System) (conversation (final (interactive_chat R l p inputs)))) = 1) \<and>
   (lower (strip line) = ''/clear'' \<and> fst (clear_context R (llm st)) = Inr () \<longrightarrow>
      conversation (state_of (chat_step R st (Inr line))) = [system_turn (system_prompt st)] \<and>
      system_prompt (state_of (chat_step R st (Inr line))) = system_prompt st) \<and>
   (startswith (lower (strip line)) ''/system '' \<and> fst (clear_context R (llm st)) = Inr () \<longrightarrow>
      conversation (state_of (chat_step R st (Inr line))) = [system_turn (strip (drop 8 (strip line)))] \<and>
      system_prompt (state_of (chat_step R st (Inr line))) = strip (drop 8 (strip line)) \<and>
      strip (drop 8 (strip line)) \<noteq> []) \<and>
   (\<forall>m. lower (strip line) = ''/clear'' \<and> fst (clear_context R (llm st)) = Inl m \<longrightarrow>
      conversation (state_of (chat_step R st (Inr line))) = conversation st \<and>
      system_prompt (state_of (chat_step R st (Inr line))) = system_prompt st) \<and>
   (\<forall>m. startswith (lower (strip line)) ''/system '' \<and> fst (clear_context R (llm st)) = Inl m \<longrightarrow>
      conversation (state_of (chat_step R st (Inr line))) = conversation st \<and>
      system_prompt (state_of (chat_step R st (Inr line))) = strip (drop 8 (strip line)))"
proof (intro conjI impI allI)
  have "conversation (final (interactive_chat R l p inputs)) \<noteq> [] \<and>
    role (hd (conversation (final (interactive_chat R l p inputs)))) = System \<and>
    length (filter (\<lambda>t. role t = System) (conversation (final (interactive_chat R l p inputs)))) = 1"
    unfolding interactive_chat_def
    by (rule one_system_first_loop) (simp_all add: system_turn_def)
  then show "conversation (final (interactive_chat R l p inputs)) \<noteq> []"
    "role (hd (conversation (final (interactive_chat R l p inputs)))) = System"
    "length (filter (\<lambda>t. role t = System) (conversation (final (interactive_chat R l p inputs)))) = 1"
    by simp_all
next
  assume a: "lower (strip line) = ''/clear'' \<and> fst (clear_context R (llm st)) = Inr ()"
  then have n: "strip line \<noteq> []" by (auto simp: lower_def)
  with a show "conversation (state_of (chat_step R st (Inr line))) = [system_turn (system_prompt st)]"
    by (cases "clear_context R (llm st)") (simp add: chat_step_def Let_def)
  from n a show "system_prompt (state_of (chat_step R st (Inr line))) = system_prompt st"
    by (cases "clear_context R (llm st)") (simp add: chat_step_def Let_def)
next
  assume a: "startswith (lower (strip line)) ''/system '' \<and> fst (clear_context R (llm st)) = Inr ()"
  then have t: "strip (drop 8 (strip line)) \<noteq> []" by (intro system_command_has_text) simp
  from a have n: "strip line \<noteq> []" "lower (strip line) \<noteq> ''/quit''" "lower (strip line) \<noteq> ''/exit''"
      "lower (strip line) \<noteq> ''/clear''"
    by (auto simp: startswith_iff lower_def)
  with a t show "conversation (state_of (chat_step R st (Inr line))) = [system_turn (strip (drop 8 (strip line)))]"
    by (cases "clear_context R (llm st)") (simp add: chat_step_def Let_def)
  from n a t show "system_prompt (state_of (chat_step R st (Inr line))) = strip (drop 8 (strip line))"
    by (cases "clear_context R (llm st)") (simp add: chat_step_def Let_def)
  from t show "strip (drop 8 (strip line)) \<noteq> []" .
next
  fix m
  assume a: "lower (strip line) = ''/clear'' \<and> fst (clear_context R (llm st)) = Inl m"
  then have n: "strip line \<noteq> []" by (auto simp: lower_def)
  with a show "conversation (state_of (chat_step R st (Inr line))) = conversation st"
    by (cases "clear_context R (llm st)") (simp add: chat_step_def Let_def)
  from n a show "system_prompt (state_of (chat_step R st (Inr line))) = system_prompt st"
    by (cases "clear_context R (llm st)") (simp add: chat_step_def Let_def)
next
  fix m
  assume a: "startswith (lower (strip line)) ''/system '' \<and> fst (clear_context R (llm st)) = Inl m"
  then have t: "strip (drop 8 (strip line)) \<noteq> []" by (intro system_command_has_text) simp
  from a have n: "strip line \<noteq> []" "lower (strip line) \<noteq> ''/quit''" "lower (strip line) \<noteq> ''/exit''"
      "lower (strip line) \<noteq> ''/clear''"
    by (auto simp: startswith_iff lower_def)
  with a t show "conversation (state_of (chat_step R st (Inr line))) = conversation st"
    by (cases "clear_context R (llm st)") (simp add: chat_step_def Let_def)
  from n a t show "system_prompt (state_of (chat_step R st (Inr line))) = strip (drop 8 (strip line))"
    by (cases "clear_context R (llm st)") (simp add: chat_step_def Let_def)
qed

theorem transcript_one_system_turn_reset_when_reset_returns_witness:
  "conversation (final (interactive_chat stub_runtime 0 ''be brief''
       [Inr ''hello'', Inr ''/system be kind'', Inr ''hi'', Inr ''/clear'', Inr ''bye''])) =
     [system_turn ''be kind'', user_turn ''bye'', assistant_turn ''hi there''] \<and>
   length (filter (\<lambda>t. role t = System) (conversation (final (interactive_chat stub_runtime 0 ''be brief''
       [Inr ''hello'', Inr ''/system be kind'', Inr ''hi'', Inr ''/clear'', Inr ''bye''])))) = 1 \<and>
   conversation (state_of (chat_step stub_runtime
       \<lparr>conversation = [system_turn ''be brief'', user_turn ''hello'', assistant_turn ''hi there''],
        system_prompt = ''be brief'', llm = 1, trace = []\<rparr> (Inr ''/clear''))) =
     [system_turn ''be brief''] \<and>
   conversation (state_of (chat_step stub_runtime
       \<lparr>conversation = [system_turn ''be brief'', user_turn ''hello'', assistant_turn ''hi there''],
        system_prompt = ''be brief'', llm = 1, trace = []\<rparr> (Inr ''/system be kind''))) =
     [system_turn ''be kind''] \<and>
   conversation (state_of (chat_step failing_reset_runtime
       \<lparr>conversation = [system_turn ''be brief'', user_turn ''hello'', assistant_turn ''hi there''],
        system_prompt = ''be brief'', llm = 1, trace = []\<rparr> (Inr ''/clear''))) =
     [system_turn ''be brief'', user_turn ''hello'', assistant_turn ''hi there''] \<and>
   system_prompt (state_of (chat_step failing_reset_runtime
       \<lparr>conversation = [system_turn ''be brief'', user_turn ''hello'', assistant_turn ''hi there''],
        system_prompt = ''be brief'', llm = 1, trace = []\<rparr> (Inr ''/system be kind''))) = ''be kind''"
proof -
  let ?st = "\<lparr>conversation = [system_turn ''be brief'', user_turn ''hello'', assistant_turn ''hi there''],
        system_prompt = ''be brief'', llm = 1::nat, trace = []\<rparr>"
  let ?inputs = "[Inr ''hello'', Inr ''/system be kind'', Inr ''hi'', Inr ''/clear'', Inr ''bye'']"
  have run: "conversation (final (interactive_chat stub_runtime 0 ''be brief'' ?inputs)) =
     [system_turn ''be kind'', user_turn ''bye'', assistant_turn ''hi there'']"
    by code_simp
  have h1: "lower (strip ''/clear'') = ''/clear'' \<and> fst (clear_context stub_runtime (llm ?st)) = Inr ()"
    by code_simp
  have h2: "startswith (lower (strip ''/system be kind'')) ''/system '' \<and>
      fst (clear_context stub_runtime (llm ?st)) = Inr ()"
    by code_simp
  have h3: "lower (strip ''/clear'') = ''/clear'' \<and>
      fst (clear_context failing_reset_runtime (llm ?st)) = Inl ''reset failed''"
    by code_simp
  have h4: "startswith (lower (strip ''/system be kind'')) ''/system '' \<and>
      fst (clear_context failing_reset_runtime (llm ?st)) = Inl ''reset failed''"
    by code_simp
  have v: "strip (drop 8 (strip ''/system be kind'')) = ''be kind''"
    by code_simp
  from transcript_one_system_turn_reset_when_reset_returns
         [of stub_runtime 0 "''be brief''" ?inputs "''/clear''" ?st] h1
  have c1: "length (filter (\<lambda>t. role t = System)
               (conversation (final (interactive_chat stub_runtime 0 ''be brief'' ?inputs)))) = 1"
    and c2: "conversation (state_of (chat_step stub_runtime ?st (Inr ''/clear''))) =
       [system_turn (system_prompt ?st)]"
    by blast+
  from transcript_one_system_turn_reset_when_reset_returns
         [of stub_runtime 0 "''be brief''" ?inputs "''/system be kind''" ?st] h2
  have c3: "conversation (state_of (chat_step stub_runtime ?st (Inr ''/system be kind''))) =
       [system_turn (strip (drop 8 (strip ''/system be kind'')))]"
    by blast
  from transcript_one_system_turn_reset_when_reset_returns
         [of failing_reset_runtime 0 "''be brief''" ?inputs "''/clear''" ?st] h3
  have c4: "conversation (state_of (chat_step failing_reset_runtime ?st (Inr ''/clear''))) =
       conversation ?st"
    by blast
  from transcript_one_system_turn_reset_when_reset_returns
         [of failing_reset_runtime 0 "''be brief''" ?inputs "''/system be kind''" ?st] h4
  have c5: "system_prompt (state_of (chat_step failing_reset_runtime ?st (Inr ''/system be kind''))) =
       strip (drop 8 (strip ''/system be kind''))"
    by blast
  from run c1 c2 c3 c4 c5 v show ?thesis by simp
qed

text \<open>
  C3 fails as stated for one exception the generation call can raise: a
  \<open>KeyboardInterrupt\<close> is caught by the other handler (lines 148 to 150), which ends the
  loop; nothing is logged and the next input is not read.
\<close>

theorem interrupt_during_generation_ends_loop:
  "chat_loop (stub_runtime\<lparr>generate_all := (\<lambda>h prompt t m. (Inl KeyboardInterrupt, h))\<rparr>)
     \<lparr>conversation = [system_turn ''be brief''], system_prompt = ''be brief'', llm = 0, trace = []\<rparr>
     [Inr ''hello'', Inr ''again''] =
   Terminated
     \<lparr>conversation = [system_turn ''be brief'', user_turn ''hello''], system_prompt = ''be brief'',
      llm = 0,
      trace = [Input You, Print AssistantPrefix,
               Call (GenerateAll [system_turn ''be brief'', user_turn ''hello''] (7 / 10) 500),
               Print Interrupted]\<rparr>"
  by code_simp

text \<open>
  C3, amended. A user utterance (a line that after stripping is neither blank nor a
  command) whose generation call raises. In every case the user turn appended before the
  call stays: it is the last turn of the transcript, with no assistant turn after it.
  When the exception is an \<open>Exception\<close>, it is logged and reported to the user and the
  loop goes on: it prompts again, and the next input is processed from the state with the
  dangling user turn. When it is a \<open>KeyboardInterrupt\<close>, the loop ends with the farewell
  and nothing is logged.
\<close>

theorem generation_exception_keeps_user_turn:
  assumes "strip line \<noteq> []"
    and "lower (strip line) \<notin> {''/quit'', ''/exit'', ''/clear''}"
    and "\<not> startswith (lower (strip line)) ''/system ''"
    and "generate_all R (llm st) (conversation st @ [user_turn (strip line)]) (7 / 10) 500 = (Inl e, l')"
  shows "\<exists>st'. conversation st' = conversation st @ [user_turn (strip line)] \<and>
           last (conversation st') = user_turn (strip line) \<and>
           system_prompt st' = system_prompt st \<and>
           state_of (chat_step R st (Inr line)) = st' \<and>
           (e \<noteq> KeyboardInterrupt \<longrightarrow>
              chat_step R st (Inr line) = Continue st' \<and>
              trace st' = trace st @
                [Input You, Print AssistantPrefix,
                 Call (GenerateAll (conversation st @ [user_turn (strip line)]) (7 / 10) 500),
                 LogError (GeneratingResponse e), Print (ErrorReport e)] \<and>
              chat_loop R st [Inr line] = AwaitingInput (emit [Input You] st') \<and>
              (\<forall>inp rest. chat_loop R st (Inr line # inp # rest) =
                 (case chat_step R st' inp of
                    Break s \<Rightarrow> Terminated s
                  | Continue s \<Rightarrow> chat_loop R s rest))) \<and>
           (e = KeyboardInterrupt \<longrightarrow>
              chat_step R st (Inr line) = Break st' \<and>
              trace st' = trace st @
                [Input You, Print AssistantPrefix,
                 Call (GenerateAll (conversation st @ [user_turn (strip line)]) (7 / 10) 500),
                 Print Interrupted] \<and>
              (\<forall>rest. chat_loop R st (Inr line # rest) = Terminated st'))"
proof -
  let ?base = "trace st @ [Input You, Print AssistantPrefix,
                 Call (GenerateAll (conversation st @ [user_turn (strip line)]) (7 / 10) 500)]"
  from assms(1-3) have "chat_step R st (Inr line) = utterance R (emit [Input You] st) (strip line)"
    by (intro chat_step_utterance) auto
  also from assms(4) have "\<dots> =
      on_exception e
       \<lparr>conversation = conversation st @ [user_turn (strip line)], system_prompt = system_prompt st,
        llm = l',
        trace = trace st @ [Input You] @ [Print AssistantPrefix,
                  Call (GenerateAll (conversation st @ [user_turn (strip line)]) (7 / 10) 500)]\<rparr>"
    by (simp add: utterance_failed)
  finally have step: "chat_step R st (Inr line) =
      on_exception e
       \<lparr>conversation = conversation st @ [user_turn (strip line)], system_prompt = system_prompt st,
        llm = l', trace = ?base\<rparr>"
    by simp
  show ?thesis
  proof (cases "e = KeyboardInterrupt")
    case True
    let ?st' = "\<lparr>conversation = conversation st @ [user_turn (strip line)],
        system_prompt = system_prompt st, llm = l', trace = ?base @ [Print Interrupted]\<rparr>"
    from True step have b: "chat_step R st (Inr line) = Break ?st'"
      by (simp add: on_exception_def emit_def)
    then have "\<forall>rest. chat_loop R st (Inr line # rest) = Terminated ?st'" by simp
    with b True show ?thesis by (intro exI [of _ ?st']) simp
  next
    case False
    let ?st' = "\<lparr>conversation = conversation st @ [user_turn (strip line)],
        system_prompt = system_prompt st, llm = l',
        trace = ?base @ [LogError (GeneratingResponse e), Print (ErrorReport e)]\<rparr>"
    from False step have c: "chat_step R st (Inr line) = Continue ?st'"
      by (cases e) (simp_all add: on_exception_def emit_def)
    then have "chat_loop R st [Inr line] = AwaitingInput (emit [Input You] ?st')"
      and "\<forall>inp rest. chat_loop R st (Inr line # inp # rest) =
                 (case chat_step R ?st' inp of
                    Break s \<Rightarrow> Terminated s
                  | Continue s \<Rightarrow> chat_loop R s rest)"
      by simp_all
    with c False show ?thesis by (intro exI [of _ ?st']) simp
  qed
qed

theorem generation_exception_keeps_user_turn_witness:
  "chat_loop (stub_runtime\<lparr>generate_all := (\<lambda>h prompt t m. (Inl (Exception ''device lost''), h))\<rparr>)
     \<lparr>conversation = [system_turn ''be brief''], system_prompt = ''be brief'', llm = 0, trace = []\<rparr>
     [Inr '' hello '', Inr ''/quit''] =
   Terminated
     \<lparr>conversation = [system_turn ''be brief'', user_turn ''hello''], system_prompt = ''be brief'',
      llm = 0,
      trace = [Input You, Print AssistantPrefix,
               Call (GenerateAll [system_turn ''be brief'', user_turn ''hello''] (7 / 10) 500),
               LogError (GeneratingResponse (Exception ''device lost'')),
               Print (ErrorReport (Exception ''device lost'')),
               Input You, Print Goodbye]\<rparr>"
proof -
  let ?R = "stub_runtime\<lparr>generate_all := (\<lambda>h prompt t m. (Inl (Exception ''device lost''), h))\<rparr>"
  let ?st = "\<lparr>conversation = [system_turn ''be brief''], system_prompt = ''be brief'', llm = 0::nat, trace = []\<rparr>"
  have s: "strip '' hello '' = ''hello''" by code_simp
  have h1: "strip '' hello '' \<noteq> []" by code_simp
  have h2: "lower (strip '' hello '') \<notin> {''/quit'', ''/exit'', ''/clear''}" by code_simp
  have h3: "\<not> startswith (lower (strip '' hello '')) ''/system ''" by code_simp
  have h4: "generate_all ?R (llm ?st) (conversation ?st @ [user_turn (strip '' hello '')]) (7 / 10) 500
      = (Inl (Exception ''device lost''), 0)"
    by (simp add: stub_runtime_def)
  from generation_exception_keeps_user_turn [OF h1 h2 h3 h4] obtain st' where
    c: "conversation st' = conversation ?st @ [user_turn (strip '' hello '')]"
    and p: "system_prompt st' = system_prompt ?st"
    and l: "state_of (chat_step ?R ?st (Inr '' hello '')) = st'"
    and t: "trace st' = trace ?st @
                [Input You, Print AssistantPrefix,
                 Call (GenerateAll (conversation ?st @ [user_turn (strip '' hello '')]) (7 / 10) 500),
                 LogError (GeneratingResponse (Exception ''device lost'')),
                 Print (ErrorReport (Exception ''device lost''))]"
    and n: "chat_loop ?R ?st (Inr '' hello '' # Inr ''/quit'' # []) =
                 (case chat_step ?R st' (Inr ''/quit'') of
                    Break s \<Rightarrow> Terminated s
                  | Continue s \<Rightarrow> chat_loop ?R s [])"
    by auto
  have "llm (state_of (chat_step ?R ?st (Inr '' hello ''))) = 0" by code_simp
  with l have "llm st' = 0" by simp
  with c p t have st': "st' = \<lparr>conversation = [system_turn ''be brief'', user_turn ''hello''],
      system_prompt = ''be brief'', llm = 0,
      trace = [Input You, Print AssistantPrefix,
               Call (GenerateAll [system_turn ''be brief'', user_turn ''hello''] (7 / 10) 500),
               LogError (GeneratingResponse (Exception ''device lost'')),
               Print (ErrorReport (Exception ''device lost''))]\<rparr>"
    unfolding s by (cases st') simp
  have q: "chat_step ?R st' (Inr ''/quit'') = Break (emit [Input You, Print Goodbye] st')" for st'
  proof -
    have "strip ''/quit'' = ''/quit''" "lower ''/quit'' = ''/quit''" by code_simp+
    then show ?thesis by (simp add: chat_step_def emit_def)
  qed
  from n show ?thesis unfolding q st' by (simp add: emit_def)
qed

text \<open>
  C7. What the program does on \<open>/system\<close> followed by white space only. The line is
  stripped before it is matched (line 90), so it reaches the loop as \<open>/system\<close>: it is
  appended to the transcript as a user turn and sent to the generation operation. No input
  at all makes the loop print the usage hint of line 118: a stripped line that starts with
  \<open>/system\<close> and a space has text after it.
\<close>

theorem blank_system_command_is_sent_to_the_model:
  "(list_all is_space ws \<longrightarrow>
      (\<exists>es ts.
         trace (state_of (chat_step R st (Inr (''/system '' @ ws)))) =
           trace st @ [Input You, Print AssistantPrefix,
                       Call (GenerateAll (conversation st @ [user_turn ''/system'']) (7 / 10) 500)] @ es \<and>
         conversation (state_of (chat_step R st (Inr (''/system '' @ ws)))) =
           conversation st @ user_turn ''/system'' # ts)) \<and>
   (\<exists>es. trace (state_of (chat_step R st inp)) = trace st @ es \<and> Print UsageHint \<notin> set es)"
proof (intro conjI impI)
  assume ws: "list_all is_space ws"
  then have s: "strip (''/system '' @ ws) = ''/system''" by (rule strip_system_blank)
  then have "lower (strip (''/system '' @ ws)) = ''/system''" by (simp add: lower_system)
  then have "chat_step R st (Inr (''/system '' @ ws)) =
      utterance R (emit [Input You] st) (strip (''/system '' @ ws))"
    by (rule chat_step_bare_system)
  with s utterance_effect [of R "emit [Input You] st" "''/system''"]
  show "\<exists>es ts.
         trace (state_of (chat_step R st (Inr (''/system '' @ ws)))) =
           trace st @ [Input You, Print AssistantPrefix,
                       Call (GenerateAll (conversation st @ [user_turn ''/system'']) (7 / 10) 500)] @ es \<and>
         conversation (state_of (chat_step R st (Inr (''/system '' @ ws)))) =
           conversation st @ user_turn ''/system'' # ts"
    by auto
next
  show "\<exists>es. trace (state_of (chat_step R st inp)) = trace st @ es \<and> Print UsageHint \<notin> set es"
    by (rule chat_step_never_usage_hint)
qed

theorem blank_system_command_is_sent_to_the_model_witness:
  "(\<exists>es ts.
      trace (state_of (chat_step stub_runtime
          \<lparr>conversation = [system_turn ''be brief''], system_prompt = ''be brief'', llm = 0, trace = []\<rparr>
          (Inr ''/system   ''))) =
        [Input You, Print AssistantPrefix,
         Call (GenerateAll [system_turn ''be brief'', user_turn ''/system''] (7 / 10) 500)] @ es \<and>
      conversation (state_of (chat_step stub_runtime
          \<lparr>conversation = [system_turn ''be brief''], system_prompt = ''be brief'', llm = 0, trace = []\<rparr>
          (Inr ''/system   ''))) =
        [system_turn ''be brief''] @ user_turn ''/system'' # ts) \<and>
   conversation (state_of (chat_step stub_runtime
          \<lparr>conversation = [system_turn ''be brief''], system_prompt = ''be brief'', llm = 0, trace = []\<rparr>
          (Inr ''/system   ''))) =
     [system_turn ''be brief'', user_turn ''/system'', assistant_turn ''hi there'']"
proof -
  let ?st = "\<lparr>conversation = [system_turn ''be brief''], system_prompt = ''be brief'', llm = 0::nat, trace = []\<rparr>"
  have h: "list_all is_space ''  ''" by code_simp
  have c: "conversation (state_of (chat_step stub_runtime ?st (Inr ''/system   ''))) =
     [system_turn ''be brief'', user_turn ''/system'', assistant_turn ''hi there'']"
    by code_simp
  from blank_system_command_is_sent_to_the_model [of "''  ''" stub_runtime ?st] h
  have "\<exists>es ts.
         trace (state_of (chat_step stub_runtime ?st (Inr (''/system '' @ ''  '')))) =
           trace ?st @ [Input You, Print AssistantPrefix,
                       Call (GenerateAll (conversation ?st @ [user_turn ''/system'']) (7 / 10) 500)] @ es \<and>
         conversation (state_of (chat_step stub_runtime ?st (Inr (''/system '' @ ''  '')))) =
           conversation ?st @ user_turn ''/system'' # ts"
    by blast
  with c show ?thesis by simp
qed


subsection \<open>Model selector\<close>

lemma lower_char_q: "lower_char c = CHR ''q'' \<Longrightarrow> c = CHR ''q'' \<or> c = CHR ''Q''"
proof -
  assume a: "lower_char c = CHR ''q''"
  from lower_char_moves [of c] show ?thesis
  proof
    assume "lower_char c = c"
    with a show ?thesis by simp
  next
    assume "(of_char (lower_char c) :: nat) = of_char c + 32 \<and> 65 \<le> (of_char c :: nat)"
    with a have "(of_char c :: nat) = of_char CHR ''Q''" by simp
    then have "c = CHR ''Q''" by (simp only: of_char_eq_iff)
    then show ?thesis by simp
  qed
qed

lemma quit_token_not_a_number: "lower s = ''q'' \<Longrightarrow> py_int s = None"
proof -
  assume "lower s = ''q''"
  then obtain c where s: "s = [c]" and "lower_char c = CHR ''q''"
    by (auto simp: lower_def)
  then have "c = CHR ''q'' \<or> c = CHR ''Q''" by (simp add: lower_char_q)
  moreover have "py_int ''q'' = None" "py_int ''Q'' = None" by code_simp+
  ultimately show ?thesis using s by auto
qed

lemma select_loop_invalid:
  assumes "lower (strip line) \<noteq> ''q''"
    and "py_int (strip line) = None \<or>
         (\<exists>n. py_int (strip line) = Some n \<and> (n < 1 \<or> int (length models) < n))"
  shows "\<exists>hint. select_loop models (Inr line # rest) =
           after [Input SelectModelNumber, Print hint] (select_loop models rest)"
  using assms by (auto simp: Let_def)

lemma select_loop_retries:
  assumes "\<forall>line \<in> set bad. lower (strip line) \<noteq> ''q'' \<and>
            (py_int (strip line) = None \<or>
             (\<exists>n. py_int (strip line) = Some n \<and> (n < 1 \<or> int (length models) < n)))"
  shows "snd (select_loop models (map Inr bad @ rest)) = snd (select_loop models rest) \<and>
         length (filter (\<lambda>e. e = Input SelectModelNumber) (fst (select_loop models (map Inr bad @ rest)))) =
           length bad +
           length (filter (\<lambda>e. e = Input SelectModelNumber) (fst (select_loop models rest)))"
  using assms
proof (induction bad)
  case Nil
  then show ?case by simp
next
  case (Cons line bad)
  from Cons.prems have "lower (strip line) \<noteq> ''q''"
    "py_int (strip line) = None \<or>
         (\<exists>n. py_int (strip line) = Some n \<and> (n < 1 \<or> int (length models) < n))"
    by simp_all
  from select_loop_invalid [OF this, of "map Inr bad @ rest"] obtain hint where
    "select_loop models (Inr line # map Inr bad @ rest) =
       after [Input SelectModelNumber, Print hint] (select_loop models (map Inr bad @ rest))"
    by blast
  moreover from Cons have "snd (select_loop models (map Inr bad @ rest)) = snd (select_loop models rest) \<and>
         length (filter (\<lambda>e. e = Input SelectModelNumber) (fst (select_loop models (map Inr bad @ rest)))) =
           length bad +
           length (filter (\<lambda>e. e = Input SelectModelNumber) (fst (select_loop models rest)))"
    by simp
  ultimately show ?case by (simp add: after_def)
qed

text \<open>
  C5. \<open>select_model\<close> on any list of models. Let a line be invalid when, stripped, it is
  not the quit token and either is no integer or is an integer outside \<open>1..len(models)\<close>.
  After any number of invalid lines (there is no retry limit, and each one only prints a
  hint and prompts again: the result is that of the loop on the rest of the input)
  \<^item> a quit token, \<open>q\<close> in either case, ends the process by \<open>sys.exit(0)\<close>, and no model
    is returned;
  \<^item> an integer \<open>i\<close> with \<open>1 \<le> i \<le> len(models)\<close> returns the \<open>i\<close>-th model, counted
    from one;
  \<^item> when the input ends, the function is still prompting, having prompted once per line
    read and once more.
\<close>

theorem select_model_quit_retry_choose:
  assumes "\<forall>line \<in> set bad. lower (strip line) \<noteq> ''q'' \<and>
            (py_int (strip line) = None \<or>
             (\<exists>n. py_int (strip line) = Some n \<and> (n < 1 \<or> int (length models) < n)))"
  shows "(lower (strip q) = ''q'' \<longrightarrow>
            snd (select_model models (map Inr bad @ Inr q # rest)) = SysExit 0) \<and>
         (py_int (strip c) = Some i \<and> 1 \<le> i \<and> i \<le> int (length models) \<longrightarrow>
            snd (select_model models (map Inr bad @ Inr c # rest)) = Selected (models ! nat (i - 1)) rest) \<and>
         snd (select_model models (map Inr bad)) = AwaitingChoice \<and>
         length (filter (\<lambda>e. e = Input SelectModelNumber) (fst (select_model models (map Inr bad)))) =
           length bad + 1"
proof (intro conjI impI)
  assume "lower (strip q) = ''q''"
  then have "snd (select_loop models (Inr q # rest)) = SysExit 0" by simp
  with select_loop_retries [OF assms, of "Inr q # rest"]
  show "snd (select_model models (map Inr bad @ Inr q # rest)) = SysExit 0"
    by (simp add: select_model_def after_def)
next
  assume a: "py_int (strip c) = Some i \<and> 1 \<le> i \<and> i \<le> int (length models)"
  then have "lower (strip c) \<noteq> ''q''" using quit_token_not_a_number [of "strip c"] by auto
  with a have "snd (select_loop models (Inr c # rest)) = Selected (models ! nat (i - 1)) rest"
    by (simp add: Let_def)
  with select_loop_retries [OF assms, of "Inr c # rest"]
  show "snd (select_model models (map Inr bad @ Inr c # rest)) = Selected (models ! nat (i - 1)) rest"
    by (simp add: select_model_def after_def)
next
  from select_loop_retries [OF assms, of "[]"]
  show "snd (select_model models (map Inr bad)) = AwaitingChoice"
    by (simp add: select_model_def after_def)
next
  from select_loop_retries [OF assms, of "[]"]
  show "length (filter (\<lambda>e. e = Input SelectModelNumber) (fst (select_model models (map Inr bad)))) =
           length bad + 1"
    by (simp add: select_model_def after_def)
qed

theorem select_model_quit_retry_choose_witness:
  "snd (select_model [Path ''/m/a-chat.hef'', Path ''/m/qwen.hef'']
          (map Inr [''0'', ''three'', '''', ''3'', ''-1''] @ Inr '' Q '' # [Inr ''1''])) = SysExit 0 \<and>
   snd (select_model [Path ''/m/a-chat.hef'', Path ''/m/qwen.hef'']
          (map Inr [''0'', ''three'', '''', ''3'', ''-1''] @ Inr '' 2 '' # [Inr ''hello''])) =
     Selected (Path ''/m/qwen.hef'') [Inr ''hello''] \<and>
   snd (select_model [Path ''/m/a-chat.hef'', Path ''/m/qwen.hef'']
          (map Inr [''0'', ''three'', '''', ''3'', ''-1''])) = AwaitingChoice"
proof -
  let ?models = "[Path ''/m/a-chat.hef'', Path ''/m/qwen.hef'']"
  let ?bad = "[''0'', ''three'', '''', ''3'', ''-1'']"
  have v: "py_int (strip ''0'') = Some 0" "py_int (strip ''three'') = None" "py_int (strip '''') = None"
    "py_int (strip ''3'') = Some 3" "py_int (strip ''-1'') = Some (- 1)"
    by code_simp+
  have nq: "lower (strip ''0'') \<noteq> ''q''" "lower (strip ''three'') \<noteq> ''q''" "lower (strip '''') \<noteq> ''q''"
    "lower (strip ''3'') \<noteq> ''q''" "lower (strip ''-1'') \<noteq> ''q''"
    by code_simp+
  have h: "\<forall>line \<in> set ?bad. lower (strip line) \<noteq> ''q'' \<and>
            (py_int (strip line) = None \<or>
             (\<exists>n. py_int (strip line) = Some n \<and> (n < 1 \<or> int (length ?models) < n)))"
    using v nq by simp
  have q: "lower (strip '' Q '') = ''q''" by code_simp
  have c: "py_int (strip '' 2 '') = Some 2 \<and> (1::int) \<le> 2 \<and> 2 \<le> int (length ?models)" by code_simp
  have n: "?models ! nat (2 - 1) = Path ''/m/qwen.hef''" by simp
  from select_model_quit_retry_choose [OF h, of "'' Q ''" "[Inr ''1'']" "'' 2 ''" 2] q
  have r1: "snd (select_model ?models (map Inr ?bad @ Inr '' Q '' # [Inr ''1''])) = SysExit 0"
    and r3: "snd (select_model ?models (map Inr ?bad)) = AwaitingChoice"
    by blast+
  from select_model_quit_retry_choose [OF h, of "'' Q ''" "[Inr ''hello'']" "'' 2 ''" 2] c
  have r2: "snd (select_model ?models (map Inr ?bad @ Inr '' 2 '' # [Inr ''hello''])) =
      Selected (?models ! nat (2 - 1)) [Inr ''hello'']"
    by blast
  from r1 r2 r3 n show ?thesis by simp
qed

subsection \<open>Entry point\<close>

lemma teardown_calls_and_warnings:
  "Input p \<notin> set (teardown R l v)" "Print m \<notin> set (teardown R l v)"
  by (simp_all add: teardown_def split: option.split prod.split sum.split)

lemma except_finally_trace:
  "\<exists>es. fst (except_finally R l v raised) = es @ teardown R l v \<and>
        (es = [] \<or> (\<exists>w. es = [LogError w]))"
proof (cases raised)
  case None
  then show ?thesis by (simp add: except_finally_def)
next
  case (Some e)
  then show ?thesis by (cases e) (simp_all add: except_finally_def)
qed

lemma utterance_no_select_prompt:
  "\<exists>es. trace (state_of (utterance R st u)) = trace st @ es \<and> Input SelectModelNumber \<notin> set es"
proof (cases "generate_all R (llm st) (conversation st @ [user_turn u]) (7 / 10) 500")
  case (Pair res l')
  show ?thesis
  proof (cases res)
    case (Inl e)
    with Pair show ?thesis by (simp add: utterance_failed on_exception_trace)
  next
    case (Inr response)
    with Pair show ?thesis by (simp add: utterance_answered)
  qed
qed

lemma chat_step_no_select_prompt:
  "\<exists>es. trace (state_of (chat_step R st inp)) = trace st @ es \<and> Input SelectModelNumber \<notin> set es"
proof (cases inp)
  case (Inl e)
  then show ?thesis by (simp add: chat_step_def on_exception_trace)
next
  case (Inr line)
  consider (blank) "strip line = []"
    | (quit) "strip line \<noteq> []" "lower (strip line) = ''/quit'' \<or> lower (strip line) = ''/exit''"
    | (clear) "strip line \<noteq> []" "lower (strip line) = ''/clear''"
    | (system) "strip line \<noteq> []" "startswith (lower (strip line)) ''/system ''"
    | (other) "strip line \<noteq> []" "lower (strip line) \<noteq> ''/quit''" "lower (strip line) \<noteq> ''/exit''"
        "lower (strip line) \<noteq> ''/clear''" "\<not> startswith (lower (strip line)) ''/system ''"
    by blast
  then show ?thesis
  proof cases
    case blank
    with Inr show ?thesis by (simp add: chat_step_def)
  next
    case quit
    with Inr show ?thesis by (auto simp: chat_step_def)
  next
    case clear
    with Inr show ?thesis
      by (cases "clear_context R (llm st)")
         (auto simp: chat_step_def Let_def on_exception_trace split: sum.splits)
  next
    case system
    then have "lower (strip line) \<noteq> ''/quit''" "lower (strip line) \<noteq> ''/exit''"
      "lower (strip line) \<noteq> ''/clear''"
      by (auto simp: startswith_iff)
    with system Inr show ?thesis
      by (cases "clear_context R (llm st)")
         (auto simp: chat_step_def Let_def on_exception_trace split: sum.splits)
  next
    case other
    then have "chat_step R st (Inr line) = utterance R (emit [Input You] st) (strip line)"
      by (rule chat_step_utterance)
    with Inr utterance_no_select_prompt [of R "emit [Input You] st" "strip line"] show ?thesis
      by auto
  qed
qed

lemma chat_loop_no_select_prompt:
  "Input SelectModelNumber \<notin> set (trace st) \<Longrightarrow>
   Input SelectModelNumber \<notin> set (trace (final (chat_loop R st inputs)))"
proof (induction inputs arbitrary: st)
  case Nil
  then show ?case by simp
next
  case (Cons inp rest)
  from chat_step_no_select_prompt [of R st inp] Cons.prems
  have step: "Input SelectModelNumber \<notin> set (trace (state_of (chat_step R st inp)))"
    by auto
  show ?case
  proof (cases "chat_step R st inp")
    case (Continue st')
    with step Cons.IH [of st'] show ?thesis by simp
  next
    case (Break st')
    with step show ?thesis by simp
  qed
qed

lemma interactive_chat_no_select_prompt:
  "Input SelectModelNumber \<notin> set (trace (final (interactive_chat R l p inputs)))"
  unfolding interactive_chat_def by (rule chat_loop_no_select_prompt) simp

lemma session_no_select_prompt:
  assumes "find_or_select_model a f inputs = (tr, Selected hef_path rest)"
    and "Input SelectModelNumber \<notin> set tr"
  shows "Input SelectModelNumber \<notin> set (fst (main a f R inputs))"
proof (cases "VDevice R")
  case (Inl m)
  with assms except_finally_trace [of R None None "Some (Exception m)"]
       teardown_calls_and_warnings(1) [of SelectModelNumber R None None]
  show ?thesis by (fastforce simp: main_def after_def)
next
  case d: (Inr d)
  show ?thesis
  proof (cases "LLM R d (str hef_path)")
    case (Inl m)
    with d assms except_finally_trace [of R None "Some d" "Some (Exception m)"]
         teardown_calls_and_warnings(1) [of SelectModelNumber R None "Some d"]
    show ?thesis by (fastforce simp: main_def after_def)
  next
    case l: (Inr l)
    show ?thesis
    proof (cases "interactive_chat R l (system_prompt_arg a) rest")
      case (AwaitingInput st)
      with interactive_chat_no_select_prompt [of R l "system_prompt_arg a" rest] d l assms
      show ?thesis by (simp add: main_def)
    next
      case (Terminated st)
      with interactive_chat_no_select_prompt [of R l "system_prompt_arg a" rest] d l assms
        except_finally_trace [of R "Some (llm st)" "Some d" None]
        teardown_calls_and_warnings(1) [of SelectModelNumber R "Some (llm st)" "Some d"]
      show ?thesis by (fastforce simp: main_def after_def)
    qed
  qed
qed

text \<open>
  C9. When no model path is given on the command line and discovery finds exactly one
  model, \<open>main\<close> takes it without calling \<open>select_model\<close>: the selection stage prints the
  report of the choice and nothing else, reads nothing from standard input, and the
  selection prompt occurs nowhere in the run.
\<close>

theorem single_model_selected_without_prompt:
  assumes "hef_path_arg a = None \<or> hef_path_arg a = Some []"
    and "get_downloaded_llm_models (models_dir f) (listing f) = [m]"
  shows "find_or_select_model a f inputs = ([Print (UsingOnly (stem m))], Selected m inputs) \<and>
         (\<exists>tr. fst (main a f R inputs) =
                 [Print (UsingOnly (stem m)), Print (SelectedModel (stem m))] @ tr) \<and>
         Input SelectModelNumber \<notin> set (fst (main a f R inputs))"
proof -
  from assms have sel: "find_or_select_model a f inputs =
      ([Print (UsingOnly (stem m))], Selected m inputs)"
    by (auto simp: find_or_select_model_def)
  then have "\<exists>tr. fst (main a f R inputs) =
                 [Print (UsingOnly (stem m)), Print (SelectedModel (stem m))] @ tr"
    by (auto simp: main_def after_def Let_def split: sum.splits chat_result.splits)
  moreover from sel have "Input SelectModelNumber \<notin> set (fst (main a f R inputs))"
    by (rule session_no_select_prompt) simp
  ultimately show ?thesis using sel by blast
qed

theorem single_model_selected_without_prompt_witness:
  "find_or_select_model \<lparr>hef_path_arg = None, system_prompt_arg = ''be brief''\<rparr>
     \<lparr>path_exists = (\<lambda>p. False), models_dir = ''/m'', listing = Some [''qwen.hef'', ''yolo.hef'']\<rparr>
     [Inr ''hello''] =
     ([Print (UsingOnly ''qwen'')], Selected \<lparr>parent = ''/m/'', name = ''qwen.hef''\<rparr> [Inr ''hello'']) \<and>
   Input SelectModelNumber \<notin> set (fst (main \<lparr>hef_path_arg = None, system_prompt_arg = ''be brief''\<rparr>
     \<lparr>path_exists = (\<lambda>p. False), models_dir = ''/m'', listing = Some [''qwen.hef'', ''yolo.hef'']\<rparr>
     stub_runtime [Inr ''hello'']))"
proof -
  let ?a = "\<lparr>hef_path_arg = None, system_prompt_arg = ''be brief''\<rparr>"
  let ?f = "\<lparr>path_exists = (\<lambda>p. False), models_dir = ''/m'', listing = Some [''qwen.hef'', ''yolo.hef'']\<rparr>"
  have h1: "hef_path_arg ?a = None \<or> hef_path_arg ?a = Some []" by simp
  have h2: "get_downloaded_llm_models (models_dir ?f) (listing ?f) = [\<lparr>parent = ''/m/'', name = ''qwen.hef''\<rparr>]"
    by code_simp
  have s: "stem \<lparr>parent = ''/m/'', name = ''qwen.hef''\<rparr> = ''qwen''" by code_simp
  from single_model_selected_without_prompt [OF h1 h2, of "[Inr ''hello'']" stub_runtime]
  show ?thesis unfolding s by blast
qed

lemma select_loop_result:
  "snd (select_loop models inputs) \<noteq> SysExit 1 \<and> Print ChatBanner \<notin> set (fst (select_loop models inputs))"
proof (induction models inputs rule: select_loop.induct)
  case (1 models)
  show ?case by simp
next
  case (2 models e rest)
  then show ?case by (cases e) (simp_all add: after_def)
next
  case (3 models line rest)
  show ?case
  proof (cases "lower (strip line) = ''q''")
    case True
    then show ?thesis by simp
  next
    case nq: False
    show ?thesis
    proof (cases "py_int (strip line)")
      case None
      with nq 3(1) show ?thesis by (simp add: after_def)
    next
      case (Some n)
      show ?thesis
      proof (cases "0 \<le> n - 1 \<and> n - 1 < int (length models)")
        case True
        with nq Some show ?thesis by (simp add: Let_def)
      next
        case False
        with nq Some 3(2) [of "strip line" n "n - 1"] show ?thesis
          by (simp add: Let_def after_def)
      qed
    qed
  qed
qed

lemma find_or_select_model_exit_one:
  "snd (find_or_select_model a f inputs) = SysExit 1 \<longleftrightarrow>
     ((hef_path_arg a = None \<or> hef_path_arg a = Some []) \<and>
        get_downloaded_llm_models (models_dir f) (listing f) = []) \<or>
     (\<exists>given. hef_path_arg a = Some given \<and> given \<noteq> [] \<and> \<not> path_exists f (Path given) \<and>
        \<not> path_exists f (Path (given @ HAILO_FILE_EXTENSION)))"
proof (cases "hef_path_arg a = None \<or> hef_path_arg a = Some []")
  case True
  then show ?thesis
    using select_loop_result [of "get_downloaded_llm_models (models_dir f) (listing f)" inputs]
    by (auto simp: find_or_select_model_def select_model_def after_def Let_def)
next
  case False
  then obtain given where "hef_path_arg a = Some given" "given \<noteq> []" by auto
  then show ?thesis by (auto simp: find_or_select_model_def Let_def)
qed

lemma find_or_select_model_no_banner:
  "Print ChatBanner \<notin> set (fst (find_or_select_model a f inputs))"
  using select_loop_result [of "get_downloaded_llm_models (models_dir f) (listing f)" inputs]
  by (auto simp: find_or_select_model_def select_model_def after_def Let_def)

lemma except_finally_raised:
  "except_finally R l v (Some (Exception m)) = (LogError (ErrorOccurred (Exception m)) # teardown R l v, Exit 1)"
  "except_finally R l v None = (teardown R l v, Exit 0)"
  by (simp_all add: except_finally_def)

lemma main_unfold:
  assumes "find_or_select_model a f inputs = (tr, r)"
  shows "main a f R inputs =
     (case r of
        SysExit n \<Rightarrow> (tr, Exit n)
      | Raised e \<Rightarrow> (tr, Uncaught e)
      | AwaitingChoice \<Rightarrow> (tr, Blocked)
      | Selected hef_path rest \<Rightarrow>
          (case VDevice R of
             Inl m \<Rightarrow>
               (tr @ [Print (SelectedModel (stem hef_path)), Print InitDevice, Call NewVDevice,
                      LogError (ErrorOccurred (Exception m))] @ teardown R None None, Exit 1)
           | Inr d \<Rightarrow>
               (case LLM R d (str hef_path) of
                  Inl m \<Rightarrow>
                    (tr @ [Print (SelectedModel (stem hef_path)), Print InitDevice, Call NewVDevice,
                           Print DeviceInitialized, Print LoadingModel, Call (NewLLM (str hef_path)),
                           LogError (ErrorOccurred (Exception m))] @ teardown R None (Some d), Exit 1)
                | Inr l \<Rightarrow>
                    (case interactive_chat R l (system_prompt_arg a) rest of
                       AwaitingInput st \<Rightarrow>
                         (tr @ [Print (SelectedModel (stem hef_path)), Print InitDevice, Call NewVDevice,
                                Print DeviceInitialized, Print LoadingModel, Call (NewLLM (str hef_path)),
                                Print ModelLoaded] @ trace st, Blocked)
                     | Terminated st \<Rightarrow>
                         (tr @ [Print (SelectedModel (stem hef_path)), Print InitDevice, Call NewVDevice,
                                Print DeviceInitialized, Print LoadingModel, Call (NewLLM (str hef_path)),
                                Print ModelLoaded] @ trace st @ teardown R (Some (llm st)) (Some d),
                          Exit 0)))))"
  using assms
  by (simp add: main_def after_def except_finally_raised Let_def
           split: select_result.split sum.split chat_result.split)

lemma process_status_one:
  "process_status out = Some (ExitStatus 1) \<longleftrightarrow>
     out = Exit 1 \<or> (\<exists>e. out = Uncaught e \<and> e \<noteq> KeyboardInterrupt)"
proof (cases out)
  case (Exit n)
  then show ?thesis by (simp add: process_status_def)
next
  case (Uncaught e)
  then show ?thesis by (cases e) (simp_all add: process_status_def)
next
  case Blocked
  then show ?thesis by (simp add: process_status_def)
qed

lemma select_loop_raised:
  "snd (select_loop models inputs) = Raised e \<Longrightarrow> Inl e \<in> set inputs \<and> (\<forall>m. e \<noteq> ValueError m)"
proof (induction models inputs rule: select_loop.induct)
  case (1 models)
  then show ?case by simp
next
  case (2 models x rest)
  then show ?case by (cases x) (auto simp: after_def)
next
  case (3 models line rest)
  show ?case
  proof (cases "lower (strip line) = ''q''")
    case True
    with 3(3) show ?thesis by simp
  next
    case nq: False
    show ?thesis
    proof (cases "py_int (strip line)")
      case None
      with nq have "snd (select_loop models (Inr line # rest)) = snd (select_loop models rest)"
        by (simp add: after_def)
      with 3(3) have "snd (select_loop models rest) = Raised e" by simp
      with nq None 3(1) show ?thesis by simp
    next
      case (Some n)
      show ?thesis
      proof (cases "0 \<le> n - 1 \<and> n - 1 < int (length models)")
        case True
        with nq Some have "snd (select_loop models (Inr line # rest)) =
            Selected (models ! nat (n - 1)) rest"
          by (simp add: Let_def)
        with 3(3) show ?thesis by simp
      next
        case False
        with nq Some have "snd (select_loop models (Inr line # rest)) = snd (select_loop models rest)"
          by (auto simp: Let_def after_def)
        with 3(3) have "snd (select_loop models rest) = Raised e" by simp
        with nq Some False 3(2) [of "strip line" n "n - 1"] show ?thesis by auto
      qed
    qed
  qed
qed

lemma find_or_select_model_raised:
  assumes "snd (find_or_select_model a f inputs) = Raised e"
  shows "(hef_path_arg a = None \<or> hef_path_arg a = Some []) \<and>
         1 < length (get_downloaded_llm_models (models_dir f) (listing f)) \<and>
         Inl e \<in> set inputs \<and> (\<forall>m. e \<noteq> ValueError m)"
proof (cases "hef_path_arg a = None \<or> hef_path_arg a = Some []")
  case True
  let ?models = "get_downloaded_llm_models (models_dir f) (listing f)"
  from True assms have ne: "?models \<noteq> []" "length ?models \<noteq> 1"
    by (auto simp: find_or_select_model_def Let_def split: if_splits)
  with True assms have "snd (select_loop ?models inputs) = Raised e"
    by (auto simp: find_or_select_model_def select_model_def after_def Let_def)
  from select_loop_raised [OF this] ne True show ?thesis
    by (cases ?models) auto
next
  case False
  then obtain given where "hef_path_arg a = Some given" "given \<noteq> []" by auto
  with assms show ?thesis by (auto simp: find_or_select_model_def Let_def split: if_splits)
qed

text \<open>
  C6 fails as stated: there is a fourth way to status \<open>1\<close> before the chat loop.
  \<open>select_model\<close> is called outside the \<open>try\<close> of \<open>main\<close> and catches \<open>ValueError\<close>
  only, so an \<open>EOFError\<close> of \<open>input()\<close> at the selection prompt leaves \<open>main\<close>
  uncaught. Here two models were found, no path was given and no device was asked for.
\<close>

theorem eof_at_selection_prompt_exits_one:
  "process_status (snd (main \<lparr>hef_path_arg = None, system_prompt_arg = ''be brief''\<rparr>
       \<lparr>path_exists = (\<lambda>p. False), models_dir = ''/m'',
        listing = Some [''a-chat.hef'', ''qwen.hef'']\<rparr>
       stub_runtime [Inl EOFError])) = Some (ExitStatus 1) \<and>
   fst (main \<lparr>hef_path_arg = None, system_prompt_arg = ''be brief''\<rparr>
       \<lparr>path_exists = (\<lambda>p. False), models_dir = ''/m'',
        listing = Some [''a-chat.hef'', ''qwen.hef'']\<rparr>
       stub_runtime [Inl EOFError]) =
     [Print (Menu [''a-chat'', ''qwen'']), Input SelectModelNumber] \<and>
   length (get_downloaded_llm_models ''/m'' (Some [''a-chat.hef'', ''qwen.hef''])) = 2"
  by code_simp

text \<open>
  C6, amended. The process ends with status \<open>1\<close> exactly when no model path is given and
  discovery finds no model, or the given path exists neither as given nor with the
  extension appended, or a model was resolved and acquiring the device or the model handle
  raises an \<open>Exception\<close>, or \<open>input()\<close> at the selection prompt raises an exception that
  is neither \<open>ValueError\<close> nor \<open>KeyboardInterrupt\<close> (then no path was given and more than
  one model was found). In each of these cases the chat loop has not been started. When
  the chat loop ends normally \<open>main\<close> returns, which is status \<open>0\<close>.
\<close>

theorem process_status_one_before_chat_zero_on_quit:
  "(process_status (snd (main a f R inputs)) = Some (ExitStatus 1) \<longleftrightarrow>
      ((hef_path_arg a = None \<or> hef_path_arg a = Some []) \<and>
         get_downloaded_llm_models (models_dir f) (listing f) = []) \<or>
      (\<exists>given. hef_path_arg a = Some given \<and> given \<noteq> [] \<and> \<not> path_exists f (Path given) \<and>
         \<not> path_exists f (Path (given @ HAILO_FILE_EXTENSION))) \<or>
      (\<exists>hef_path rest. snd (find_or_select_model a f inputs) = Selected hef_path rest \<and>
         ((\<exists>m. VDevice R = Inl m) \<or> (\<exists>d m. VDevice R = Inr d \<and> LLM R d (str hef_path) = Inl m))) \<or>
      (\<exists>e. snd (find_or_select_model a f inputs) = Raised e \<and> e \<noteq> KeyboardInterrupt)) \<and>
   (\<forall>e. snd (find_or_select_model a f inputs) = Raised e \<longrightarrow>
      (hef_path_arg a = None \<or> hef_path_arg a = Some []) \<and>
      1 < length (get_downloaded_llm_models (models_dir f) (listing f)) \<and>
      Inl e \<in> set inputs \<and> (\<forall>m. e \<noteq> ValueError m)) \<and>
   (process_status (snd (main a f R inputs)) = Some (ExitStatus 1) \<longrightarrow>
      Print ChatBanner \<notin> set (fst (main a f R inputs))) \<and>
   (\<forall>hef_path rest d l st.
      snd (find_or_select_model a f inputs) = Selected hef_path rest \<and> VDevice R = Inr d \<and>
      LLM R d (str hef_path) = Inr l \<and>
      interactive_chat R l (system_prompt_arg a) rest = Terminated st \<longrightarrow>
      process_status (snd (main a f R inputs)) = Some (ExitStatus 0))"
proof -
  obtain tr r where fr: "find_or_select_model a f inputs = (tr, r)"
    by (cases "find_or_select_model a f inputs")
  note m = main_unfold [OF fr, of R]
  from find_or_select_model_no_banner [of a f inputs] fr
  have nb: "Print ChatBanner \<notin> set tr" by simp
  from find_or_select_model_exit_one [of a f inputs] fr
  have pre: "r = SysExit 1 \<longleftrightarrow>
      ((hef_path_arg a = None \<or> hef_path_arg a = Some []) \<and>
         get_downloaded_llm_models (models_dir f) (listing f) = []) \<or>
      (\<exists>given. hef_path_arg a = Some given \<and> given \<noteq> [] \<and> \<not> path_exists f (Path given) \<and>
         \<not> path_exists f (Path (given @ HAILO_FILE_EXTENSION)))"
    by simp
  have exit1: "snd (main a f R inputs) = Exit 1 \<longleftrightarrow>
      r = SysExit 1 \<or>
      (\<exists>hef_path rest. r = Selected hef_path rest \<and>
         ((\<exists>m. VDevice R = Inl m) \<or> (\<exists>d m. VDevice R = Inr d \<and> LLM R d (str hef_path) = Inl m)))"
    unfolding m by (auto split: select_result.splits sum.splits chat_result.splits)
  have unc: "snd (main a f R inputs) = Uncaught e \<longleftrightarrow> r = Raised e" for e
    unfolding m by (auto split: select_result.splits sum.splits chat_result.splits)
  have one: "process_status (snd (main a f R inputs)) = Some (ExitStatus 1) \<longleftrightarrow>
      r = SysExit 1 \<or>
      (\<exists>hef_path rest. r = Selected hef_path rest \<and>
         ((\<exists>m. VDevice R = Inl m) \<or> (\<exists>d m. VDevice R = Inr d \<and> LLM R d (str hef_path) = Inl m))) \<or>
      (\<exists>e. r = Raised e \<and> e \<noteq> KeyboardInterrupt)"
    unfolding process_status_one exit1 unc by blast
  have raised: "\<forall>e. r = Raised e \<longrightarrow>
      (hef_path_arg a = None \<or> hef_path_arg a = Some []) \<and>
      1 < length (get_downloaded_llm_models (models_dir f) (listing f)) \<and>
      Inl e \<in> set inputs \<and> (\<forall>m. e \<noteq> ValueError m)"
    using find_or_select_model_raised [of a f inputs] fr by simp
  have banner: "process_status (snd (main a f R inputs)) = Some (ExitStatus 1) \<longrightarrow>
      Print ChatBanner \<notin> set (fst (main a f R inputs))"
    unfolding process_status_one m using nb teardown_calls_and_warnings(2) [of ChatBanner R]
    by (auto split: select_result.splits sum.splits chat_result.splits)
  have zero: "\<forall>hef_path rest d l st.
      r = Selected hef_path rest \<and> VDevice R = Inr d \<and>
      LLM R d (str hef_path) = Inr l \<and>
      interactive_chat R l (system_prompt_arg a) rest = Terminated st \<longrightarrow>
      process_status (snd (main a f R inputs)) = Some (ExitStatus 0)"
    unfolding m by (auto simp: process_status_def)
  from one pre raised banner zero fr show ?thesis by simp
qed

theorem process_status_one_before_chat_zero_on_quit_witness:
  "process_status (snd (main \<lparr>hef_path_arg = Some ''missing'', system_prompt_arg = ''be brief''\<rparr>
          \<lparr>path_exists = (\<lambda>p. False), models_dir = ''/m'', listing = Some [''qwen.hef'']\<rparr>
          stub_runtime [])) = Some (ExitStatus 1) \<and>
   process_status (snd (main \<lparr>hef_path_arg = None, system_prompt_arg = ''be brief''\<rparr>
          \<lparr>path_exists = (\<lambda>p. False), models_dir = ''/m'', listing = None\<rparr>
          stub_runtime [])) = Some (ExitStatus 1) \<and>
   process_status (snd (main \<lparr>hef_path_arg = Some ''model'', system_prompt_arg = ''be brief''\<rparr>
          \<lparr>path_exists = (\<lambda>p. str p = ''model.hef''), models_dir = ''/m'', listing = None\<rparr>
          (stub_runtime\<lparr>LLM := (\<lambda>d p. Inl ''cannot load'')\<rparr>) [])) = Some (ExitStatus 1) \<and>
   process_status (snd (main \<lparr>hef_path_arg = None, system_prompt_arg = ''be brief''\<rparr>
          \<lparr>path_exists = (\<lambda>p. False), models_dir = ''/m'',
           listing = Some [''a-chat.hef'', ''qwen.hef'']\<rparr>
          stub_runtime [Inr ''7'', Inl EOFError])) = Some (ExitStatus 1) \<and>
   process_status (snd (main \<lparr>hef_path_arg = Some ''model'', system_prompt_arg = ''be brief''\<rparr>
          \<lparr>path_exists = (\<lambda>p. str p = ''model.hef''), models_dir = ''/m'', listing = None\<rparr>
          stub_runtime [Inr ''hello'', Inr ''/quit''])) = Some (ExitStatus 0)"
proof -
  let ?f0 = "\<lparr>path_exists = (\<lambda>p. False), models_dir = ''/m'', listing = Some [''qwen.hef'']\<rparr>"
  let ?fn = "\<lparr>path_exists = (\<lambda>p. False), models_dir = ''/m'', listing = None\<rparr>"
  let ?f2 = "\<lparr>path_exists = (\<lambda>p. False), models_dir = ''/m'',
           listing = Some [''a-chat.hef'', ''qwen.hef'']\<rparr>"
  let ?fm = "\<lparr>path_exists = (\<lambda>p. str p = ''model.hef''), models_dir = ''/m'', listing = None\<rparr>"
  let ?am = "\<lparr>hef_path_arg = Some ''model'', system_prompt_arg = ''be brief''\<rparr>"
  let ?ax = "\<lparr>hef_path_arg = Some ''missing'', system_prompt_arg = ''be brief''\<rparr>"
  let ?an = "\<lparr>hef_path_arg = None, system_prompt_arg = ''be brief''\<rparr>"
  let ?RL = "stub_runtime\<lparr>LLM := (\<lambda>d p. Inl ''cannot load'')\<rparr>"
  have b: "\<exists>given. hef_path_arg ?ax = Some given \<and> given \<noteq> [] \<and> \<not> path_exists ?f0 (Path given) \<and>
         \<not> path_exists ?f0 (Path (given @ HAILO_FILE_EXTENSION))"
    by simp
  from process_status_one_before_chat_zero_on_quit [of ?ax ?f0 stub_runtime "[]"] b
  have r1: "process_status (snd (main ?ax ?f0 stub_runtime [])) = Some (ExitStatus 1)" by blast
  have a: "(hef_path_arg ?an = None \<or> hef_path_arg ?an = Some []) \<and>
         get_downloaded_llm_models (models_dir ?fn) (listing ?fn) = []"
    by (simp add: get_downloaded_llm_models_def)
  from process_status_one_before_chat_zero_on_quit [of ?an ?fn stub_runtime "[]"] a
  have r2: "process_status (snd (main ?an ?fn stub_runtime [])) = Some (ExitStatus 1)" by blast
  have sel: "snd (find_or_select_model ?am ?fm inputs) = Selected (Path ''model.hef'') inputs" for inputs
    by code_simp
  have c: "\<exists>hef_path rest. snd (find_or_select_model ?am ?fm []) = Selected hef_path rest \<and>
         ((\<exists>m. VDevice ?RL = Inl m) \<or> (\<exists>d m. VDevice ?RL = Inr d \<and> LLM ?RL d (str hef_path) = Inl m))"
    using sel [of "[]"] by (simp add: stub_runtime_def)
  from process_status_one_before_chat_zero_on_quit [of ?am ?fm ?RL "[]"] c
  have r3: "process_status (snd (main ?am ?fm ?RL [])) = Some (ExitStatus 1)" by blast
  have "snd (find_or_select_model ?an ?f2 [Inr ''7'', Inl EOFError]) = Raised EOFError"
    by code_simp
  then have d: "\<exists>e. snd (find_or_select_model ?an ?f2 [Inr ''7'', Inl EOFError]) = Raised e \<and>
      e \<noteq> KeyboardInterrupt"
    by simp
  from process_status_one_before_chat_zero_on_quit [of ?an ?f2 stub_runtime "[Inr ''7'', Inl EOFError]"] d
  have r4: "process_status (snd (main ?an ?f2 stub_runtime [Inr ''7'', Inl EOFError])) =
      Some (ExitStatus 1)"
    by blast
  have "case interactive_chat stub_runtime 0 (system_prompt_arg ?am) [Inr ''hello'', Inr ''/quit''] of
          Terminated st \<Rightarrow> True | AwaitingInput st \<Rightarrow> False"
    by code_simp
  then obtain st where
    "interactive_chat stub_runtime 0 (system_prompt_arg ?am) [Inr ''hello'', Inr ''/quit''] = Terminated st"
    by (auto split: chat_result.splits)
  with sel [of "[Inr ''hello'', Inr ''/quit'']"]
  have "snd (find_or_select_model ?am ?fm [Inr ''hello'', Inr ''/quit'']) =
          Selected (Path ''model.hef'') [Inr ''hello'', Inr ''/quit''] \<and>
        VDevice stub_runtime = Inr () \<and> LLM stub_runtime () (str (Path ''model.hef'')) = Inr 0 \<and>
        interactive_chat stub_runtime 0 (system_prompt_arg ?am) [Inr ''hello'', Inr ''/quit''] = Terminated st"
    by (simp add: stub_runtime_def)
  with process_status_one_before_chat_zero_on_quit [of ?am ?fm stub_runtime "[Inr ''hello'', Inr ''/quit'']"]
  have r5: "process_status (snd (main ?am ?fm stub_runtime [Inr ''hello'', Inr ''/quit''])) =
      Some (ExitStatus 0)"
    by blast
  from r1 r2 r3 r4 r5 show ?thesis by simp
qed


subsection \<open>Teardown\<close>

lemma teardown_reset_returned:
  assumes "clear_context R h = (Inr (), h')"
  shows "teardown R (Some h) (Some d) =
     [Call ClearContext, Call ReleaseLLM] @
     (case release_llm R h' of Inl m \<Rightarrow> [LogWarning (ReleasingLLM m)] | Inr u \<Rightarrow> []) @
     [Call ReleaseVDevice] @
     (case release_vdevice R d of Inl m \<Rightarrow> [LogWarning (ReleasingVDevice m)] | Inr u \<Rightarrow> [])"
  using assms by (simp add: teardown_def)

lemma teardown_reset_raised:
  assumes "clear_context R h = (Inl m, h')"
  shows "teardown R (Some h) (Some d) =
     [Call ClearContext, LogWarning (ReleasingLLM m), Call ReleaseVDevice] @
     (case release_vdevice R d of Inl m \<Rightarrow> [LogWarning (ReleasingVDevice m)] | Inr u \<Rightarrow> [])"
  using assms by (simp add: teardown_def)

text \<open>
  C2 fails as stated. With both handles acquired and a context reset that raises, the
  \<open>finally\<close> block does not call the model handle's release: \<open>clear_context\<close> and
  \<open>release\<close> stand in the same \<open>try\<close>, so the exception of the first skips the second.
\<close>

theorem failed_reset_skips_model_release:
  "teardown failing_reset_runtime (Some 0) (Some ()) =
     [Call ClearContext, LogWarning (ReleasingLLM ''reset failed''), Call ReleaseVDevice] \<and>
   Call ReleaseLLM \<notin> set (fst (main \<lparr>hef_path_arg = Some ''model.hef'', system_prompt_arg = ''be brief''\<rparr>
       \<lparr>path_exists = (\<lambda>p. True), models_dir = ''/m'', listing = None\<rparr>
       failing_reset_runtime [Inr ''/quit''])) \<and>
   snd (main \<lparr>hef_path_arg = Some ''model.hef'', system_prompt_arg = ''be brief''\<rparr>
       \<lparr>path_exists = (\<lambda>p. True), models_dir = ''/m'', listing = None\<rparr>
       failing_reset_runtime [Inr ''/quit'']) = Exit 0"
  by code_simp

text \<open>
  C2, amended. With both handles acquired, the \<open>finally\<close> block runs however the \<open>try\<close>
  block was left, and the run of \<open>main\<close> ends with it. It calls the context reset first
  and the release of the device last, and the release of the model handle between them
  when the context reset returned. An \<open>Exception\<close> of the context reset or of the model
  release is logged as a warning, and one of the context reset skips the model release;
  an \<open>Exception\<close> of the device release is logged as a warning. The release of the device
  is attempted in every case.
\<close>

theorem teardown_order_best_effort:
  "(\<exists>es. fst (except_finally R (Some h) (Some d) raised) = es @ teardown R (Some h) (Some d) \<and>
         (es = [] \<or> (\<exists>w. es = [LogError w]))) \<and>
   (\<forall>hef_path rest l st.
      snd (find_or_select_model a f inputs) = Selected hef_path rest \<and> VDevice R = Inr d \<and>
      LLM R d (str hef_path) = Inr l \<and>
      interactive_chat R l (system_prompt_arg a) rest = Terminated st \<longrightarrow>
      (\<exists>es. fst (main a f R inputs) = es @ teardown R (Some (llm st)) (Some d))) \<and>
   (fst (clear_context R h) = Inr () \<longrightarrow>
      filter (\<lambda>e. case e of Call c \<Rightarrow> True | _ \<Rightarrow> False) (teardown R (Some h) (Some d)) =
        [Call ClearContext, Call ReleaseLLM, Call ReleaseVDevice]) \<and>
   (\<forall>m. fst (clear_context R h) = Inl m \<longrightarrow>
      filter (\<lambda>e. case e of Call c \<Rightarrow> True | _ \<Rightarrow> False) (teardown R (Some h) (Some d)) =
        [Call ClearContext, Call ReleaseVDevice] \<and>
      LogWarning (ReleasingLLM m) \<in> set (teardown R (Some h) (Some d))) \<and>
   (\<forall>m. fst (clear_context R h) = Inr () \<and> release_llm R (snd (clear_context R h)) = Inl m \<longrightarrow>
      LogWarning (ReleasingLLM m) \<in> set (teardown R (Some h) (Some d))) \<and>
   (\<forall>m. release_vdevice R d = Inl m \<longrightarrow>
      LogWarning (ReleasingVDevice m) \<in> set (teardown R (Some h) (Some d)))"
proof (intro conjI allI impI)
  show "\<exists>es. fst (except_finally R (Some h) (Some d) raised) = es @ teardown R (Some h) (Some d) \<and>
         (es = [] \<or> (\<exists>w. es = [LogError w]))"
    by (rule except_finally_trace)
next
  fix hef_path rest l st
  assume a: "snd (find_or_select_model a f inputs) = Selected hef_path rest \<and> VDevice R = Inr d \<and>
      LLM R d (str hef_path) = Inr l \<and>
      interactive_chat R l (system_prompt_arg a) rest = Terminated st"
  obtain tr r where fr: "find_or_select_model a f inputs = (tr, r)"
    by (cases "find_or_select_model a f inputs")
  with a have "r = Selected hef_path rest" by simp
  with a show "\<exists>es. fst (main a f R inputs) = es @ teardown R (Some (llm st)) (Some d)"
    unfolding main_unfold [OF fr, of R] by simp
next
  assume "fst (clear_context R h) = Inr ()"
  then have "clear_context R h = (Inr (), snd (clear_context R h))"
    by (cases "clear_context R h") simp
  from teardown_reset_returned [OF this, of d]
  show "filter (\<lambda>e. case e of Call c \<Rightarrow> True | _ \<Rightarrow> False) (teardown R (Some h) (Some d)) =
        [Call ClearContext, Call ReleaseLLM, Call ReleaseVDevice]"
    by (simp split: sum.split)
next
  fix m
  assume "fst (clear_context R h) = Inl m"
  then have c: "clear_context R h = (Inl m, snd (clear_context R h))"
    by (cases "clear_context R h") simp
  from teardown_reset_raised [OF c, of d]
  show "filter (\<lambda>e. case e of Call c \<Rightarrow> True | _ \<Rightarrow> False) (teardown R (Some h) (Some d)) =
        [Call ClearContext, Call ReleaseVDevice]"
    by (simp split: sum.split)
  from teardown_reset_raised [OF c, of d]
  show "LogWarning (ReleasingLLM m) \<in> set (teardown R (Some h) (Some d))"
    by simp
next
  fix m
  assume a: "fst (clear_context R h) = Inr () \<and> release_llm R (snd (clear_context R h)) = Inl m"
  then have "clear_context R h = (Inr (), snd (clear_context R h))"
    by (cases "clear_context R h") simp
  from teardown_reset_returned [OF this, of d] a
  show "LogWarning (ReleasingLLM m) \<in> set (teardown R (Some h) (Some d))"
    by simp
next
  fix m
  assume a: "release_vdevice R d = Inl m"
  obtain res h' where c: "clear_context R h = (res, h')" by (cases "clear_context R h")
  show "LogWarning (ReleasingVDevice m) \<in> set (teardown R (Some h) (Some d))"
  proof (cases res)
    case (Inl x)
    with c teardown_reset_raised [of R h x h' d] a show ?thesis by simp
  next
    case (Inr u)
    with c teardown_reset_returned [of R h h' d] a show ?thesis by simp
  qed
qed

theorem teardown_order_best_effort_witness:
  "filter (\<lambda>e. case e of Call c \<Rightarrow> True | _ \<Rightarrow> False)
     (teardown (stub_runtime\<lparr>release_llm := (\<lambda>h. Inl ''busy'')\<rparr>) (Some 3) (Some ())) =
     [Call ClearContext, Call ReleaseLLM, Call ReleaseVDevice] \<and>
   LogWarning (ReleasingLLM ''busy'') \<in>
     set (teardown (stub_runtime\<lparr>release_llm := (\<lambda>h. Inl ''busy'')\<rparr>) (Some 3) (Some ())) \<and>
   filter (\<lambda>e. case e of Call c \<Rightarrow> True | _ \<Rightarrow> False)
     (teardown failing_reset_runtime (Some 3) (Some ())) = [Call ClearContext, Call ReleaseVDevice] \<and>
   LogWarning (ReleasingVDevice ''gone'') \<in>
     set (teardown (stub_runtime\<lparr>release_vdevice := (\<lambda>d. Inl ''gone'')\<rparr>) (Some 3) (Some ()))"
proof -
  let ?RB = "stub_runtime\<lparr>release_llm := (\<lambda>h. Inl ''busy'')\<rparr>"
  let ?RG = "stub_runtime\<lparr>release_vdevice := (\<lambda>d. Inl ''gone'')\<rparr>"
  have h1: "fst (clear_context ?RB (3::nat)) = Inr ()" by (simp add: stub_runtime_def)
  have h2: "fst (clear_context ?RB (3::nat)) = Inr () \<and> release_llm ?RB (snd (clear_context ?RB 3)) = Inl ''busy''"
    by (simp add: stub_runtime_def)
  have h3: "fst (clear_context failing_reset_runtime (3::nat)) = Inl ''reset failed''"
    by (simp add: failing_reset_runtime_def stub_runtime_def)
  have h4: "release_vdevice ?RG () = Inl ''gone''" by (simp add: stub_runtime_def)
  from teardown_order_best_effort [of ?RB 3 "()"] h1 h2
  have r1: "filter (\<lambda>e. case e of Call c \<Rightarrow> True | _ \<Rightarrow> False) (teardown ?RB (Some 3) (Some ())) =
     [Call ClearContext, Call ReleaseLLM, Call ReleaseVDevice]"
    and r2: "LogWarning (ReleasingLLM ''busy'') \<in> set (teardown ?RB (Some 3) (Some ()))"
    by blast+
  from teardown_order_best_effort [of failing_reset_runtime 3 "()"] h3
  have r3: "filter (\<lambda>e. case e of Call c \<Rightarrow> True | _ \<Rightarrow> False)
     (teardown failing_reset_runtime (Some 3) (Some ())) = [Call ClearContext, Call ReleaseVDevice]"
    by blast
  from teardown_order_best_effort [of ?RG 3 "()"] h4
  have r4: "LogWarning (ReleasingVDevice ''gone'') \<in> set (teardown ?RG (Some 3) (Some ()))"
    by blast
  from r1 r2 r3 r4 show ?thesis by simp
qed

end
